theory Spec2Isabelle
  imports Main "HOL-Library.Multiset" "HOL-Library.Sublist" "HOL-Library.Char_ord"
    "HOL-Library.List_Lexorder"
begin

section \<open>JavaScript built-ins used by the blog scripts\<close>

text \<open>
  A string is a list of characters, each standing for the code unit of the same number
  (0 to 255: ASCII and the Latin-1 supplement). On these, \<open>toLowerCase\<close> maps \<open>A\<close>..\<open>Z\<close>
  (65 to 90) and the accented capitals 192 to 222, the multiplication sign 215 left out,
  to the letter 32 places on, and leaves every other character alone; \<open>trim\<close> strips
  the white space and line terminators among them (TAB, LF, VT, FF, CR, SP and the
  no-break space 160) from both ends; \<open>includes_str s q\<close> is \<open>s.includes(q)\<close>.
  The general theorems below use \<open>toLowerCase\<close> only as a function applied alike to both
  sides of a comparison; its table matters for the concrete instances alone.
\<close>

definition lowerChar :: "char \<Rightarrow> char" where
  "lowerChar c =
     (let n = (of_char c :: nat)
      in if (65 \<le> n \<and> n \<le> 90) \<or> (192 \<le> n \<and> n \<le> 222 \<and> n \<noteq> 215)
         then char_of (n + 32) else c)"

definition toLowerCase :: "string \<Rightarrow> string" where
  "toLowerCase s = map lowerChar s"

definition isWhiteSpace :: "char \<Rightarrow> bool" where
  "isWhiteSpace c =
     (let n = (of_char c :: nat) in (9 \<le> n \<and> n \<le> 13) \<or> n = 32 \<or> n = 160)"

definition trim :: "string \<Rightarrow> string" where
  "trim s = rev (dropWhile isWhiteSpace (rev (dropWhile isWhiteSpace s)))"

fun includes_str :: "string \<Rightarrow> string \<Rightarrow> bool" where
  "includes_str [] q = (q = [])"
| "includes_str (c # cs) q = (prefix q (c # cs) \<or> includes_str cs q)"

text \<open>\<open>Array.prototype.includes\<close> on an array of strings: strict (case-sensitive) equality.\<close>

definition includes_arr :: "'a list \<Rightarrow> 'a \<Rightarrow> bool" where
  "includes_arr xs x = (x \<in> set xs)"

text \<open>\<open>Array.prototype.some\<close>.\<close>

definition some :: "('a \<Rightarrow> bool) \<Rightarrow> 'a list \<Rightarrow> bool" where
  "some P xs = list_ex P xs"

text \<open>
  \<open>Array.prototype.slice(start, fin)\<close> for integer arguments: a negative index counts from
  the end, and both indices are clamped to the array.
\<close>

definition slice :: "'a list \<Rightarrow> int \<Rightarrow> int \<Rightarrow> 'a list" where
  "slice xs start fin =
     (let len = int (length xs);
          k = (if start < 0 then max (len + start) 0 else min start len);
          final = (if fin < 0 then max (len + fin) 0 else min fin len)
      in take (nat (final - k)) (drop (nat k) xs))"

text \<open>
  \<open>Array.prototype.sort(comparefn)\<close>. The comparator's result is a number; \<open>None\<close> stands
  for \<open>NaN\<close>, which the sort reads as \<open>+0\<close>. The language requires the sort to be stable,
  so for a consistent comparator the result is the one computed by this stable insertion
  sort (each element is placed before the first element it does not exceed).
\<close>

definition sortCompare :: "('a \<Rightarrow> 'a \<Rightarrow> int option) \<Rightarrow> 'a \<Rightarrow> 'a \<Rightarrow> int" where
  "sortCompare comparefn x y = (case comparefn x y of None \<Rightarrow> 0 | Some v \<Rightarrow> v)"

fun insert_sorted :: "('a \<Rightarrow> 'a \<Rightarrow> int option) \<Rightarrow> 'a \<Rightarrow> 'a list \<Rightarrow> 'a list" where
  "insert_sorted comparefn x [] = [x]"
| "insert_sorted comparefn x (y # ys) =
     (if sortCompare comparefn x y \<le> 0 then x # y # ys
      else y # insert_sorted comparefn x ys)"

definition array_sort :: "('a \<Rightarrow> 'a \<Rightarrow> int option) \<Rightarrow> 'a list \<Rightarrow> 'a list" where
  "array_sort comparefn xs = foldr (insert_sorted comparefn) xs []"

text \<open>
  \<open>new Date(s)\<close> for the date-only ISO form \<open>YYYY-MM-DD\<close> the catalog uses: the time
  value is midnight UTC of that day, in milliseconds since 1970-01-01. Every other string
  is read as an invalid date (\<open>None\<close>, the time value \<open>NaN\<close>); what engines make of other
  forms is outside this model, and the theorems about ordering assume dates of this form.
\<close>

definition isDigit :: "char \<Rightarrow> bool" where
  "isDigit c = (let n = (of_char c :: nat) in 48 \<le> n \<and> n \<le> 57)"

definition digitsToInt :: "string \<Rightarrow> int" where
  "digitsToInt s = foldl (\<lambda>n c. 10 * n + (int (of_char c) - 48)) 0 s"

definition inLeapYear :: "int \<Rightarrow> bool" where
  "inLeapYear y = (y mod 4 = 0 \<and> (y mod 100 \<noteq> 0 \<or> y mod 400 = 0))"

definition daysInMonth :: "int \<Rightarrow> int \<Rightarrow> int" where
  "daysInMonth y m =
     (if m = 2 then (if inLeapYear y then 29 else 28)
      else if m = 4 \<or> m = 6 \<or> m = 9 \<or> m = 11 then 30 else 31)"

definition dayFromYear :: "int \<Rightarrow> int" where
  "dayFromYear y =
     365 * (y - 1970) + (y - 1969) div 4 - (y - 1901) div 100 + (y - 1601) div 400"

definition makeDay :: "int \<Rightarrow> int \<Rightarrow> int \<Rightarrow> int" where
  "makeDay y m d = dayFromYear y + (\<Sum>k \<leftarrow> [1..<nat m]. daysInMonth y (int k)) + (d - 1)"

definition msPerDay :: int where
  "msPerDay = 86400000"

definition dateTime :: "string \<Rightarrow> int option" where
  "dateTime s =
     (if length s = 10 \<and> s ! 4 = CHR ''-'' \<and> s ! 7 = CHR ''-''
         \<and> list_all isDigit (take 4 s) \<and> list_all isDigit (take 2 (drop 5 s))
         \<and> list_all isDigit (drop 8 s)
      then
        (let y = digitsToInt (take 4 s);
             m = digitsToInt (take 2 (drop 5 s));
             d = digitsToInt (drop 8 s)
         in if 1 \<le> m \<and> m \<le> 12 \<and> 1 \<le> d \<and> d \<le> daysInMonth y m
            then Some (makeDay y m d * msPerDay) else None)
      else None)"

text \<open>Subtraction of two time values: \<open>NaN\<close> when either date is invalid.\<close>

definition minusTime :: "int option \<Rightarrow> int option \<Rightarrow> int option" where
  "minusTime a b =
     (case a of None \<Rightarrow> None | Some x \<Rightarrow> (case b of None \<Rightarrow> None | Some y \<Rightarrow> Some (x - y)))"

section \<open>The post catalog and its queries (posts.js)\<close>

text \<open>
  A post object. The source's field \<open>id\<close> is named \<open>post_id\<close> here. A scored post is the
  object \<open>{...p, score: n}\<close> that \<open>getRelatedPosts\<close> builds: the same fields and a score.
\<close>

record post =
  post_id :: string
  title :: string
  date :: string
  summary :: string
  tags :: "string list"
  content :: string
  readingTime :: string

record scored_post = post +
  score :: int

definition withScore :: "post \<Rightarrow> int \<Rightarrow> scored_post" where
  "withScore p n = post.extend p (scored_post.fields n)"

text \<open>The catalog of the repository.\<close>

definition POSTS :: "post list" where
  "POSTS =
    [\<lparr>post_id = ''understanding-move-semantics-cpp'',
      title = ''Understanding Move Semantics in Modern C++'',
      date = ''2026-01-28'',
      summary = ''A deep dive into move semantics, rvalue references, and how they improve performance in modern C++ applications.'',
      tags = [''C++'', ''Performance'', ''Programming''],
      content = ''posts/understanding-move-semantics-cpp.md'',
      readingTime = ''8 min read''\<rparr>,
     \<lparr>post_id = ''neural-networks-from-scratch'',
      title = ''Building Neural Networks from Scratch'',
      date = ''2026-01-20'',
      summary = ''Implementing a neural network using only NumPy to understand the fundamentals of backpropagation and gradient descent.'',
      tags = [''AI'', ''Machine Learning'', ''Python''],
      content = ''posts/neural-networks-from-scratch.md'',
      readingTime = ''12 min read''\<rparr>,
     \<lparr>post_id = ''intro-to-shader-programming'',
      title = ''Introduction to Shader Programming'',
      date = ''2026-01-15'',
      summary = ''Learn the basics of vertex and fragment shaders, and create your first GPU-accelerated visual effects.'',
      tags = [''Graphics'', ''Shaders'', ''GLSL''],
      content = ''posts/intro-to-shader-programming.md'',
      readingTime = ''10 min read''\<rparr>,
     \<lparr>post_id = ''probability-theory-ml'',
      title = ''Probability Theory for Machine Learning'',
      date = ''2026-01-10'',
      summary = ''Essential probability concepts every ML engineer should know, from Bayes theorem to probability distributions.'',
      tags = [''Math'', ''Machine Learning'', ''Probability''],
      content = ''posts/probability-theory-ml.md'',
      readingTime = ''15 min read''\<rparr>,
     \<lparr>post_id = ''modern-cpp-best-practices'',
      title = ''Modern C++ Best Practices in 2026'',
      date = ''2026-01-05'',
      summary = ''A comprehensive guide to writing clean, efficient, and maintainable C++ code using C++20 and C++23 features.'',
      tags = [''C++'', ''Best Practices'', ''Software Engineering''],
      content = ''posts/modern-cpp-best-practices.md'',
      readingTime = ''10 min read''\<rparr>]"

text \<open>
  The query functions read the global array \<open>POSTS\<close>; here the catalog is their first
  argument \<open>C\<close>, so that they can be stated for every catalog.
\<close>

definition dateCompare :: "post \<Rightarrow> post \<Rightarrow> int option" where
  "dateCompare a b = minusTime (dateTime (date b)) (dateTime (date a))"

definition getAllPosts :: "post list \<Rightarrow> post list" where
  "getAllPosts C = array_sort dateCompare C"

definition getPostById :: "post list \<Rightarrow> string \<Rightarrow> post option" where
  "getPostById C i = List.find (\<lambda>p. post_id p = i) C"

definition getRecentPosts :: "post list \<Rightarrow> int \<Rightarrow> post list" where
  "getRecentPosts C limit = slice (getAllPosts C) 0 limit"

definition getPostsByTag :: "post list \<Rightarrow> string \<Rightarrow> post list" where
  "getPostsByTag C tag =
     (if tag = ''all'' then getAllPosts C
      else filter (\<lambda>p. some (\<lambda>t. toLowerCase t = toLowerCase tag) (tags p)) (getAllPosts C))"

text \<open>
  \<open>getAllTags\<close>: a \<open>Set\<close> keeps its elements in insertion order; the default sort orders
  strings by their code units.
\<close>

definition set_add :: "'a list \<Rightarrow> 'a \<Rightarrow> 'a list" where
  "set_add s x = (if x \<in> set s then s else s @ [x])"

definition getAllTags :: "post list \<Rightarrow> string list" where
  "getAllTags C = sort (foldl (\<lambda>s p. foldl set_add s (tags p)) [] C)"

definition searchPosts :: "post list \<Rightarrow> string \<Rightarrow> post list" where
  "searchPosts C query =
     (let lowerQuery = toLowerCase query
      in filter (\<lambda>p. includes_str (toLowerCase (title p)) lowerQuery
                    \<or> includes_str (toLowerCase (summary p)) lowerQuery
                    \<or> some (\<lambda>tag. includes_str (toLowerCase tag) lowerQuery) (tags p))
           (getAllPosts C))"

definition scoreCompare :: "scored_post \<Rightarrow> scored_post \<Rightarrow> int option" where
  "scoreCompare a b = Some (score b - score a)"

definition matchingTags :: "post \<Rightarrow> post \<Rightarrow> int" where
  "matchingTags src p = int (length (filter (\<lambda>tag. includes_arr (tags src) tag) (tags p)))"

definition getRelatedPosts :: "post list \<Rightarrow> string \<Rightarrow> int \<Rightarrow> scored_post list" where
  "getRelatedPosts C postId limit =
     (case getPostById C postId of
        None \<Rightarrow> []
      | Some src \<Rightarrow>
          (let scored =
                 array_sort scoreCompare
                   (filter (\<lambda>p. score p > 0)
                      (map (\<lambda>p. withScore p (matchingTags src p))
                         (filter (\<lambda>p. post_id p \<noteq> postId) C)))
           in slice scored 0 limit))"

section \<open>The listing page (blog.js)\<close>

text \<open>
  The module's variables \<open>currentTag\<close>, \<open>currentPage\<close> and \<open>filteredPosts\<close>, and the two
  page elements the functions read and write: the posts container (\<open>None\<close> when the
  page has no such element, otherwise the posts whose cards it shows; the empty list is
  the "No posts found." message) and the search box (\<open>None\<close> when absent, otherwise its
  text). The pagination buttons and the active-tag highlight are not modelled; they do
  not feed back into these variables.
\<close>

record blog_state =
  currentTag :: string
  currentPage :: int
  filteredPosts :: "post list"
  container :: "post list option"
  searchInput :: "string option"

definition postsPerPage :: int where
  "postsPerPage = 9"

definition initialBlog :: "post list option \<Rightarrow> string option \<Rightarrow> blog_state" where
  "initialBlog c i =
     \<lparr>currentTag = ''all'', currentPage = 1, filteredPosts = [], container = c, searchInput = i\<rparr>"

definition displayPosts :: "blog_state \<Rightarrow> blog_state" where
  "displayPosts st =
     (case container st of
        None \<Rightarrow> st
      | Some shown \<Rightarrow>
          (let startIndex = (currentPage st - 1) * postsPerPage;
               endIndex = startIndex + postsPerPage;
               postsToShow = slice (filteredPosts st) startIndex endIndex
           in st\<lparr>container := Some postsToShow\<rparr>))"

definition loadPosts :: "post list \<Rightarrow> blog_state \<Rightarrow> blog_state" where
  "loadPosts C st = displayPosts (st\<lparr>filteredPosts := getPostsByTag C (currentTag st)\<rparr>)"

definition filterByTag :: "post list \<Rightarrow> string \<Rightarrow> blog_state \<Rightarrow> blog_state" where
  "filterByTag C tag st =
     loadPosts C (st\<lparr>currentTag := tag, currentPage := 1,
                     searchInput := map_option (\<lambda>v. []) (searchInput st)\<rparr>)"

definition handleSearch :: "post list \<Rightarrow> string \<Rightarrow> blog_state \<Rightarrow> blog_state" where
  "handleSearch C query st =
     (if trim query = [] then filterByTag C (currentTag st) st
      else displayPosts (st\<lparr>filteredPosts := searchPosts C query, currentPage := 1\<rparr>))"

text \<open>\<open>Math.ceil(filteredPosts.length / postsPerPage)\<close>.\<close>

definition totalPages :: "blog_state \<Rightarrow> int" where
  "totalPages st = - ((- int (length (filteredPosts st))) div postsPerPage)"

definition changePage :: "int \<Rightarrow> blog_state \<Rightarrow> blog_state" where
  "changePage page st =
     (if page < 1 \<or> page > totalPages st then st
      else displayPosts (st\<lparr>currentPage := page\<rparr>))"

section \<open>The theme controller (theme.js)\<close>

text \<open>
  The state the script touches: the \<open>theme\<close> entry of local storage, the \<open>data-theme\<close>
  attribute of the document, the icon shown on the toggle (when the page has one), the
  operating system's preference as \<open>matchMedia\<close> reports it (\<open>None\<close> when the browser has
  no \<open>matchMedia\<close>), and whether the page has a toggle button and its click handler is
  registered. A string is truthy when it is present and not empty.
\<close>

datatype icon = Sun | Moon

record theme_state =
  storedTheme :: "string option"
  dataTheme :: "string option"
  hasIcon :: bool
  iconText :: "icon option"
  prefersDark :: "bool option"
  hasToggle :: bool
  toggleBound :: bool

datatype theme_event = DOMContentLoaded | ToggleClick | ColorSchemeChange bool

definition truthy :: "string option \<Rightarrow> bool" where
  "truthy v = (case v of None \<Rightarrow> False | Some s \<Rightarrow> s \<noteq> [])"

definition getTheme :: "theme_state \<Rightarrow> string" where
  "getTheme st =
     (case storedTheme st of
        Some savedTheme \<Rightarrow>
          (if savedTheme \<noteq> [] then savedTheme
           else if prefersDark st = Some True then ''dark'' else ''light'')
      | None \<Rightarrow> (if prefersDark st = Some True then ''dark'' else ''light''))"

definition applyTheme :: "string \<Rightarrow> theme_state \<Rightarrow> theme_state" where
  "applyTheme theme st =
     st\<lparr>dataTheme := Some theme,
        iconText := (if hasIcon st then Some (if theme = ''dark'' then Sun else Moon)
                     else iconText st),
        storedTheme := Some theme\<rparr>"

definition toggleTheme :: "theme_state \<Rightarrow> theme_state" where
  "toggleTheme st =
     (let currentTheme = dataTheme st;
          newTheme = (if currentTheme = Some ''dark'' then ''light'' else ''dark'')
      in applyTheme newTheme st)"

text \<open>
  One event of the page. The colour-scheme listener is registered when the script is
  read (if \<open>matchMedia\<close> exists), the click handler when the document has loaded.
\<close>

fun theme_step :: "theme_state \<Rightarrow> theme_event \<Rightarrow> theme_state" where
  "theme_step st DOMContentLoaded =
     (applyTheme (getTheme st) st)\<lparr>toggleBound := hasToggle st\<rparr>"
| "theme_step st ToggleClick = (if toggleBound st then toggleTheme st else st)"
| "theme_step st (ColorSchemeChange matches) =
     (case prefersDark st of
        None \<Rightarrow> st
      | Some old \<Rightarrow>
          (let st1 = st\<lparr>prefersDark := Some matches\<rparr>
           in if \<not> truthy (storedTheme st1)
              then applyTheme (if matches then ''dark'' else ''light'') st1
              else st1))"

definition theme_run :: "theme_state \<Rightarrow> theme_event list \<Rightarrow> theme_state" where
  "theme_run st evs = foldl theme_step st evs"

text \<open>A fresh page: nothing persisted, no attribute yet, the given OS preference.\<close>

definition freshPage :: "bool \<Rightarrow> theme_state" where
  "freshPage dark =
     \<lparr>storedTheme = None, dataTheme = None, hasIcon = True, iconText = None,
      prefersDark = Some dark, hasToggle = True, toggleBound = False\<rparr>"

section \<open>The queries over an explicit store\<close>

text \<open>
  \<open>Array.prototype.sort\<close> sorts in place, so whether a query leaves \<open>POSTS\<close> alone depends
  on which array it sorts. Here arrays live in a store, addressed by their position;
  \<open>POSTS\<close> is the array at address 0. The spread \<open>[...a]\<close>, \<open>filter\<close>, \<open>map\<close>, \<open>slice\<close>,
  \<open>Array.from\<close> and the literal \<open>[]\<close> allocate a new array; \<open>sort\<close> overwrites the array
  it is called on and returns the same address. The post objects themselves are never
  written by any query (\<open>getRelatedPosts\<close> builds new objects), so arrays hold them as
  values.
\<close>

datatype arr = PostArr "post list" | ScoredArr "scored_post list" | StringArr "string list"

type_synonym store = "arr list"

definition POSTS_addr :: nat where
  "POSTS_addr = 0"

definition alloc :: "arr \<Rightarrow> store \<Rightarrow> nat \<times> store" where
  "alloc a s = (length s, s @ [a])"

definition postsAt :: "store \<Rightarrow> nat \<Rightarrow> post list" where
  "postsAt s a = (if a < length s then (case s ! a of PostArr xs \<Rightarrow> xs | _ \<Rightarrow> []) else [])"

definition scoredAt :: "store \<Rightarrow> nat \<Rightarrow> scored_post list" where
  "scoredAt s a = (if a < length s then (case s ! a of ScoredArr xs \<Rightarrow> xs | _ \<Rightarrow> []) else [])"

definition stringsAt :: "store \<Rightarrow> nat \<Rightarrow> string list" where
  "stringsAt s a = (if a < length s then (case s ! a of StringArr xs \<Rightarrow> xs | _ \<Rightarrow> []) else [])"

definition getAllPosts_st :: "store \<Rightarrow> nat \<times> store" where
  "getAllPosts_st s =
     (case alloc (PostArr (postsAt s POSTS_addr)) s of
        (a, s1) \<Rightarrow> (a, s1[a := PostArr (array_sort dateCompare (postsAt s1 a))]))"

definition getPostById_st :: "string \<Rightarrow> store \<Rightarrow> post option \<times> store" where
  "getPostById_st i s = (List.find (\<lambda>p. post_id p = i) (postsAt s POSTS_addr), s)"

definition getRecentPosts_st :: "int \<Rightarrow> store \<Rightarrow> nat \<times> store" where
  "getRecentPosts_st limit s =
     (case getAllPosts_st s of (a, s1) \<Rightarrow> alloc (PostArr (slice (postsAt s1 a) 0 limit)) s1)"

definition getPostsByTag_st :: "string \<Rightarrow> store \<Rightarrow> nat \<times> store" where
  "getPostsByTag_st tag s =
     (if tag = ''all'' then getAllPosts_st s
      else (case getAllPosts_st s of
              (a, s1) \<Rightarrow>
                alloc (PostArr (filter (\<lambda>p. some (\<lambda>t. toLowerCase t = toLowerCase tag) (tags p))
                                  (postsAt s1 a))) s1))"

definition getAllTags_st :: "store \<Rightarrow> nat \<times> store" where
  "getAllTags_st s =
     (let tagSet = foldl (\<lambda>acc p. foldl set_add acc (tags p)) [] (postsAt s POSTS_addr)
      in case alloc (StringArr tagSet) s of
           (a, s1) \<Rightarrow> (a, s1[a := StringArr (sort (stringsAt s1 a))]))"

definition searchPosts_st :: "string \<Rightarrow> store \<Rightarrow> nat \<times> store" where
  "searchPosts_st query s =
     (let lowerQuery = toLowerCase query
      in case getAllPosts_st s of
           (a, s1) \<Rightarrow>
             alloc (PostArr (filter (\<lambda>p. includes_str (toLowerCase (title p)) lowerQuery
                                    \<or> includes_str (toLowerCase (summary p)) lowerQuery
                                    \<or> some (\<lambda>tag. includes_str (toLowerCase tag) lowerQuery)
                                         (tags p))
                               (postsAt s1 a))) s1)"

definition getRelatedPosts_st :: "string \<Rightarrow> int \<Rightarrow> store \<Rightarrow> nat \<times> store" where
  "getRelatedPosts_st postId limit s =
     (case getPostById_st postId s of
        (None, s0) \<Rightarrow> alloc (ScoredArr []) s0
      | (Some src, s0) \<Rightarrow>
          (case alloc (PostArr (filter (\<lambda>p. post_id p \<noteq> postId) (postsAt s0 POSTS_addr))) s0 of
             (a1, s1) \<Rightarrow>
          (case alloc (ScoredArr (map (\<lambda>p. withScore p (matchingTags src p)) (postsAt s1 a1))) s1 of
             (a2, s2) \<Rightarrow>
          (case alloc (ScoredArr (filter (\<lambda>p. score p > 0) (scoredAt s2 a2))) s2 of
             (a3, s3) \<Rightarrow>
          (case (a3, s3[a3 := ScoredArr (array_sort scoreCompare (scoredAt s3 a3))]) of
             (scored, s4) \<Rightarrow> alloc (ScoredArr (slice (scoredAt s4 scored) 0 limit)) s4)))))"

text \<open>
  \<open>framed_query q rd v s\<close>: run from store \<open>s\<close>, the query \<open>q\<close> leaves every array of \<open>s\<close>
  as it was, \<open>POSTS\<close> in particular, and returns the value \<open>v\<close> (read from the resulting
  store by \<open>rd\<close>); run a second time, from the store the first run left, it again
  changes no array and returns \<open>v\<close>.
\<close>

definition framed_query ::
  "(store \<Rightarrow> 'r \<times> store) \<Rightarrow> (store \<Rightarrow> 'r \<Rightarrow> 'v) \<Rightarrow> 'v \<Rightarrow> store \<Rightarrow> bool" where
  "framed_query q rd v s =
     (case q s of
        (r1, s1) \<Rightarrow>
          take (length s) s1 = s \<and> postsAt s1 POSTS_addr = postsAt s POSTS_addr \<and> rd s1 r1 = v \<and>
          (case q s1 of
             (r2, s2) \<Rightarrow>
               take (length s1) s2 = s1 \<and> postsAt s2 POSTS_addr = postsAt s POSTS_addr
               \<and> rd s2 r2 = v))"

section \<open>Vocabulary of the properties\<close>

text \<open>
  \<open>taggedWith t p\<close>: some tag of \<open>p\<close> equals \<open>t\<close> up to letter case. \<open>matchesQuery q p\<close>:
  the lowercased \<open>q\<close> is a substring of the lowercased title, of the lowercased summary or
  of some lowercased tag of \<open>p\<close>.
\<close>

definition taggedWith :: "string \<Rightarrow> post \<Rightarrow> bool" where
  "taggedWith t p = (\<exists>u \<in> set (tags p). toLowerCase u = toLowerCase t)"

definition matchesQuery :: "string \<Rightarrow> post \<Rightarrow> bool" where
  "matchesQuery q p =
     (sublist (toLowerCase q) (toLowerCase (title p))
      \<or> sublist (toLowerCase q) (toLowerCase (summary p))
      \<or> (\<exists>u \<in> set (tags p). sublist (toLowerCase q) (toLowerCase u)))"

text \<open>
  \<open>validDates C\<close>: every date of the catalog is a well-formed calendar date (the data
  model's invariant). \<open>notOlder a b\<close>: both dates are valid and \<open>a\<close>'s is the same day as
  \<open>b\<close>'s or a later one. \<open>timeKey\<close> is the key the newest-first order sorts by.
\<close>

definition validDates :: "post list \<Rightarrow> bool" where
  "validDates C = list_all (\<lambda>p. dateTime (date p) \<noteq> None) C"

definition notOlder :: "post \<Rightarrow> post \<Rightarrow> bool" where
  "notOlder a b =
     (case dateTime (date a) of None \<Rightarrow> False
      | Some x \<Rightarrow> (case dateTime (date b) of None \<Rightarrow> False | Some y \<Rightarrow> y \<le> x))"

definition timeKey :: "post \<Rightarrow> int" where
  "timeKey p = (case dateTime (date p) of None \<Rightarrow> 0 | Some t \<Rightarrow> - t)"

text \<open>
  \<open>candidates C i src\<close>: the posts of the catalog other than \<open>i\<close>, in catalog order, each with
  its score against \<open>src\<close>. \<open>scoreThenDate a b\<close>: \<open>a\<close> may stand before \<open>b\<close> in a ranking by
  score descending with ties broken by date descending.
\<close>

definition candidates :: "post list \<Rightarrow> string \<Rightarrow> post \<Rightarrow> scored_post list" where
  "candidates C i src =
     map (\<lambda>p. withScore p (matchingTags src p)) (filter (\<lambda>p. post_id p \<noteq> i) C)"

definition scoreThenDate :: "scored_post \<Rightarrow> scored_post \<Rightarrow> bool" where
  "scoreThenDate a b =
     (score b < score a \<or> (score a = score b \<and> notOlder (post.truncate a) (post.truncate b)))"

text \<open>Example posts for the concrete instances: only id, date and tags vary.\<close>

definition examplePost :: "string \<Rightarrow> string \<Rightarrow> string list \<Rightarrow> post" where
  "examplePost i d ts =
     \<lparr>post_id = i, title = ''Post '' @ i, date = d, summary = ''About '' @ i, tags = ts,
      content = ''posts/'' @ i @ ''.md'', readingTime = ''1 min read''\<rparr>"

definition catalogAllTag :: "post list" where
  "catalogAllTag =
     [examplePost ''a'' ''2026-01-03'' [''all''],
      examplePost ''b'' ''2026-01-02'' [''C++''],
      examplePost ''c'' ''2026-01-01'' [''ALL'', ''c++'']]"

text \<open>
  A catalog that is not in date order (the oldest post first), and a listing page on its
  second page, with a posts container and the text \<open>C+\<close> in its search box.
\<close>

definition catalogUnsorted :: "post list" where
  "catalogUnsorted =
     [examplePost ''o'' ''2026-01-01'' [''ALL'', ''c++''],
      examplePost ''n'' ''2026-01-03'' [''all''],
      examplePost ''m'' ''2026-01-02'' [''C++'']]"

definition blogOnSecondPage :: blog_state where
  "blogOnSecondPage =
     \<lparr>currentTag = ''all'', currentPage = 2, filteredPosts = [],
      container = Some [], searchInput = Some ''C+''\<rparr>"

text \<open>
  A listing page on its second page with twenty posts (ids \<open>a\<close> to \<open>t\<close>), and the page of
  the repository's catalog after a click on the tag \<open>C++\<close>.
\<close>

definition pageTwoOfTwenty :: blog_state where
  "pageTwoOfTwenty =
     \<lparr>currentTag = ''all'', currentPage = 2,
      filteredPosts = map (\<lambda>n. examplePost [char_of (97 + n)] ''2026-01-01'' []) [0..<20],
      container = Some [], searchInput = None\<rparr>"

definition blogAfterTagClick :: blog_state where
  "blogAfterTagClick = filterByTag POSTS ''C++'' (initialBlog (Some []) (Some []))"

definition catalogRelated :: "post list" where
  "catalogRelated =
     [examplePost ''s'' ''2026-01-10'' [''x'', ''y''],
      examplePost ''a'' ''2026-01-01'' [''x''],
      examplePost ''n'' ''2026-01-03'' [''z''],
      examplePost ''b'' ''2026-01-02'' [''y''],
      examplePost ''c'' ''2026-01-04'' [''X'', ''y'', ''y'', ''x'']]"

definition catalogTies :: "post list" where
  "catalogTies =
     [examplePost ''a'' ''2026-01-05'' [''x''],
      examplePost ''b'' ''2026-01-20'' [''y''],
      examplePost ''c'' ''2026-01-05'' [''x'', ''y'']]"

section \<open>The stable sort\<close>

lemma insert_sorted_insort_key:
  assumes "\<And>y. y \<in> set ys \<Longrightarrow> (sortCompare cmp x y \<le> 0) = (key x \<le> key y)"
  shows "insert_sorted cmp x ys = insort_key key x ys"
  using assms by (induction ys) simp_all

lemma array_sort_sort_key:
  fixes key :: "'a \<Rightarrow> 'k::linorder"
  assumes "\<And>x y. x \<in> set xs \<Longrightarrow> y \<in> set xs \<Longrightarrow>
             (sortCompare cmp x y \<le> 0) = (key x \<le> key y)"
  shows "array_sort cmp xs = sort_key key xs"
  using assms
proof (induction xs)
  case Nil
  show ?case by (simp add: array_sort_def)
next
  case (Cons x xs)
  have tl: "array_sort cmp xs = sort_key key xs"
    by (rule Cons.IH) (simp add: Cons.prems)
  have "insert_sorted cmp x (sort_key key xs) = insort_key key x (sort_key key xs)"
    by (rule insert_sorted_insort_key) (simp add: Cons.prems)
  with tl show ?case
    by (simp add: array_sort_def)
qed

lemma filter_sort_key_same_key:
  assumes "\<And>x. P x \<Longrightarrow> key x = k"
  shows "filter P (sort_key key xs) = filter P xs"
proof -
  have split: "filter P ys = filter P (filter (\<lambda>y. key y = k) ys)" for ys
    using assms by (induction ys) auto
  have "filter P (sort_key key xs) = filter P (filter (\<lambda>y. key y = k) (sort_key key xs))"
    by (rule split)
  also have "\<dots> = filter P (filter (\<lambda>y. key y = k) xs)"
    by (simp only: sort_key_stable)
  also have "\<dots> = filter P xs"
    by (rule split[symmetric])
  finally show ?thesis .
qed

section \<open>Newest-first listing\<close>

lemma dateCompare_timeKey:
  assumes "dateTime (date a) \<noteq> None" and "dateTime (date b) \<noteq> None"
  shows "(sortCompare dateCompare a b \<le> 0) = (timeKey a \<le> timeKey b)"
  using assms by (auto simp: sortCompare_def dateCompare_def minusTime_def timeKey_def)

lemma getAllPosts_sort_key:
  assumes "validDates C"
  shows "getAllPosts C = sort_key timeKey C"
  unfolding getAllPosts_def
  by (rule array_sort_sort_key, rule dateCompare_timeKey)
     (use assms in \<open>auto simp: validDates_def list_all_iff\<close>)

lemma notOlder_timeKey:
  assumes "dateTime (date a) \<noteq> None" and "dateTime (date b) \<noteq> None"
  shows "notOlder a b = (timeKey a \<le> timeKey b)"
  using assms by (auto simp: notOlder_def timeKey_def)

lemma sorted_wrt_notOlder:
  assumes "validDates C"
  shows "sorted_wrt notOlder (getAllPosts C)"
proof -
  have s: "sorted (map timeKey (sort_key timeKey C))"
    by (rule sorted_sort_key)
  have v: "\<forall>p \<in> set (sort_key timeKey C). dateTime (date p) \<noteq> None"
    using assms by (simp add: validDates_def list_all_iff)
  have "sorted_wrt (\<lambda>a b. timeKey a \<le> timeKey b) (sort_key timeKey C)"
    using s by (simp add: sorted_map)
  then have "sorted_wrt notOlder (sort_key timeKey C)"
    by (rule sorted_wrt_mono_rel[rotated]) (use v in \<open>simp add: notOlder_timeKey\<close>)
  then show ?thesis
    by (simp add: getAllPosts_sort_key[OF assms])
qed

lemma set_getAllPosts: "validDates C \<Longrightarrow> set (getAllPosts C) = set C"
  by (simp add: getAllPosts_sort_key)

lemma mset_getAllPosts: "validDates C \<Longrightarrow> mset (getAllPosts C) = mset C"
  by (simp add: getAllPosts_sort_key)

lemma getAllPosts_stable_time:
  assumes "validDates C"
  shows "filter (\<lambda>p. dateTime (date p) = t) (getAllPosts C)
       = filter (\<lambda>p. dateTime (date p) = t) C"
  unfolding getAllPosts_sort_key[OF assms]
  by (rule filter_sort_key_same_key[where k = "case t of None \<Rightarrow> 0 | Some v \<Rightarrow> - v"])
     (simp add: timeKey_def)

lemma getAllPosts_stable_date:
  assumes "validDates C"
  shows "filter (\<lambda>p. date p = d) (getAllPosts C) = filter (\<lambda>p. date p = d) C"
  unfolding getAllPosts_sort_key[OF assms]
  by (rule filter_sort_key_same_key[where k = "case dateTime d of None \<Rightarrow> 0 | Some v \<Rightarrow> - v"])
     (simp add: timeKey_def)

text \<open>
  C4. For every catalog whose dates are well formed, \<open>getAllPosts\<close> returns a permutation
  of the catalog, sorted by date descending, and the sort is stable: the posts of any one
  date (of any one time value) come in the order they have in the catalog.
\<close>

theorem getAllPosts_newest_first_stable:
  assumes "validDates C"
  shows "mset (getAllPosts C) = mset C
       \<and> sorted_wrt notOlder (getAllPosts C)
       \<and> filter (\<lambda>p. date p = d) (getAllPosts C) = filter (\<lambda>p. date p = d) C
       \<and> filter (\<lambda>p. dateTime (date p) = t) (getAllPosts C)
           = filter (\<lambda>p. dateTime (date p) = t) C"
  using assms
  by (simp add: mset_getAllPosts sorted_wrt_notOlder getAllPosts_stable_date
        getAllPosts_stable_time)

theorem getAllPosts_newest_first_stable_witness:
  "validDates catalogTies
   \<and> map post_id (getAllPosts catalogTies) = [''b'', ''a'', ''c'']
   \<and> mset (getAllPosts catalogTies) = mset catalogTies
   \<and> sorted_wrt notOlder (getAllPosts catalogTies)
   \<and> map post_id (filter (\<lambda>p. date p = ''2026-01-05'') (getAllPosts catalogTies))
       = [''a'', ''c'']"
proof -
  have v: "validDates catalogTies"
    by code_simp
  have l: "map post_id (getAllPosts catalogTies) = [''b'', ''a'', ''c'']"
    by code_simp
  have f: "map post_id (filter (\<lambda>p. date p = ''2026-01-05'') catalogTies) = [''a'', ''c'']"
    by code_simp
  from getAllPosts_newest_first_stable[OF v, of "''2026-01-05''" None] v l f
  show ?thesis by simp
qed

section \<open>Lookup by id\<close>

lemma find_Some_distinct:
  assumes "distinct (map f xs)"
  shows "(List.find (\<lambda>p. f p = i) xs = Some p) = (p \<in> set xs \<and> f p = i)"
  using assms by (induction xs) auto

text \<open>
  C6. In a catalog with unique ids, \<open>getPostById\<close> returns a record exactly when it is the
  record of the catalog with that id, and returns the absence value \<open>None\<close> (the source's
  \<open>undefined\<close>; no exception is raised) exactly when no record has the id.
\<close>

theorem getPostById_unique_or_absent:
  assumes "distinct (map post_id C)"
  shows "(\<forall>p. (getPostById C i = Some p) = (p \<in> set C \<and> post_id p = i))
       \<and> ((getPostById C i = None) = (\<forall>p \<in> set C. post_id p \<noteq> i))"
proof -
  have some: "(getPostById C i = Some p) = (p \<in> set C \<and> post_id p = i)" for p
    unfolding getPostById_def by (rule find_Some_distinct[OF assms])
  have none: "(getPostById C i = None) = (\<forall>p \<in> set C. post_id p \<noteq> i)"
    unfolding getPostById_def by (auto simp: find_None_iff)
  from some none show ?thesis by blast
qed

theorem getPostById_unique_or_absent_witness:
  "distinct (map post_id catalogTies)
   \<and> getPostById catalogTies ''c'' = Some (examplePost ''c'' ''2026-01-05'' [''x'', ''y''])
   \<and> examplePost ''c'' ''2026-01-05'' [''x'', ''y''] \<in> set catalogTies
   \<and> getPostById catalogTies ''zz'' = None"
proof -
  have d: "distinct (map post_id catalogTies)"
    by code_simp
  have s: "getPostById catalogTies ''c'' = Some (examplePost ''c'' ''2026-01-05'' [''x'', ''y''])"
    by code_simp
  have n: "\<forall>p \<in> set catalogTies. post_id p \<noteq> ''zz''"
    by code_simp
  from getPostById_unique_or_absent[OF d, of "''c''"]
  have "(getPostById catalogTies ''c'' = Some (examplePost ''c'' ''2026-01-05'' [''x'', ''y'']))
      = (examplePost ''c'' ''2026-01-05'' [''x'', ''y''] \<in> set catalogTies
         \<and> post_id (examplePost ''c'' ''2026-01-05'' [''x'', ''y'']) = ''c'')"
    by blast
  with s have m: "examplePost ''c'' ''2026-01-05'' [''x'', ''y''] \<in> set catalogTies"
    by blast
  from getPostById_unique_or_absent[OF d, of "''zz''"] n
  have "getPostById catalogTies ''zz'' = None"
    by simp
  with d s m show ?thesis by simp
qed

section \<open>Filter by tag\<close>

lemma mset_insert_sorted: "mset (insert_sorted cmp x ys) = add_mset x (mset ys)"
  by (induction ys) simp_all

lemma mset_array_sort: "mset (array_sort cmp xs) = mset xs"
  by (induction xs) (simp_all add: array_sort_def mset_insert_sorted)

lemma some_taggedWith: "some (\<lambda>u. toLowerCase u = toLowerCase t) (tags p) = taggedWith t p"
  by (simp add: some_def taggedWith_def list_ex_iff)

lemma getPostsByTag_filter:
  "t \<noteq> ''all'' \<Longrightarrow> getPostsByTag C t = filter (taggedWith t) (getAllPosts C)"
  by (simp add: getPostsByTag_def some_taggedWith)

lemma getPostsByTag_all: "getPostsByTag C ''all'' = getAllPosts C"
  by (simp add: getPostsByTag_def)

lemma taggedWith_list_ex:
  "taggedWith t = (\<lambda>p. list_ex (\<lambda>u. toLowerCase u = toLowerCase t) (tags p))"
  by (simp add: taggedWith_def fun_eq_iff list_ex_iff)

lemma taggedWith_cong: "toLowerCase t = toLowerCase t' \<Longrightarrow> taggedWith t = taggedWith t'"
  by (simp add: taggedWith_def fun_eq_iff)

lemma toLowerCase_All:
  "toLowerCase ''All'' = ''all''" "toLowerCase ''ALL'' = ''all''" "toLowerCase ''all'' = ''all''"
  by code_simp+

text \<open>
  C5. \<open>getPostsByTag C ''all''\<close> is \<open>getAllPosts C\<close>; for a tag token \<open>t\<close> (anything but the
  sentinel), \<open>getPostsByTag C t\<close> holds exactly the posts of the catalog with a tag equal to
  \<open>t\<close> up to letter case (as a set and with multiplicities), in newest-first order: it is
  the newest-first listing filtered, it is sorted by date descending, and posts of one
  date keep their catalog order. The dates of the catalog are assumed well formed.
\<close>

theorem getPostsByTag_all_or_tagged:
  assumes "validDates C"
  shows "getPostsByTag C ''all'' = getAllPosts C
       \<and> (t \<noteq> ''all'' \<longrightarrow>
            getPostsByTag C t = filter (taggedWith t) (getAllPosts C)
          \<and> set (getPostsByTag C t) = {p \<in> set C. taggedWith t p}
          \<and> mset (getPostsByTag C t) = filter_mset (taggedWith t) (mset C)
          \<and> sorted_wrt notOlder (getPostsByTag C t)
          \<and> filter (\<lambda>p. date p = d) (getPostsByTag C t)
              = filter (\<lambda>p. date p = d) (filter (taggedWith t) C))"
proof -
  have a: "getPostsByTag C ''all'' = getAllPosts C"
    by (rule getPostsByTag_all)
  have b: "set (filter (taggedWith t) (getAllPosts C)) = {p \<in> set C. taggedWith t p}"
    using assms by (auto simp: set_getAllPosts)
  have c: "mset (filter (taggedWith t) (getAllPosts C)) = filter_mset (taggedWith t) (mset C)"
    using assms by (simp add: mset_getAllPosts)
  have d: "sorted_wrt notOlder (filter (taggedWith t) (getAllPosts C))"
    using sorted_wrt_notOlder[OF assms] by (rule sorted_wrt_filter)
  have "filter (\<lambda>p. date p = d) (filter (taggedWith t) (getAllPosts C))
      = filter (taggedWith t) (filter (\<lambda>p. date p = d) (getAllPosts C))"
    by (simp add: conj_commute)
  also have "\<dots> = filter (taggedWith t) (filter (\<lambda>p. date p = d) C)"
    by (simp only: getAllPosts_stable_date[OF assms])
  also have "\<dots> = filter (\<lambda>p. date p = d) (filter (taggedWith t) C)"
    by (simp add: conj_commute)
  finally have e: "filter (\<lambda>p. date p = d) (filter (taggedWith t) (getAllPosts C))
      = filter (\<lambda>p. date p = d) (filter (taggedWith t) C)" .
  from a b c d e show ?thesis
    by (simp add: getPostsByTag_filter)
qed

theorem getPostsByTag_all_or_tagged_witness:
  "validDates catalogAllTag
   \<and> getPostsByTag catalogAllTag ''all'' = getAllPosts catalogAllTag
   \<and> map post_id (getPostsByTag catalogAllTag ''c++'') = [''b'', ''c'']
   \<and> map post_id (filter (taggedWith ''c++'') catalogAllTag) = [''b'', ''c'']
   \<and> sorted_wrt notOlder (getPostsByTag catalogAllTag ''c++'')"
proof -
  have v: "validDates catalogAllTag"
    by code_simp
  have ne: "''c++'' \<noteq> ''all''"
    by simp
  note T = getPostsByTag_all_or_tagged[OF v, of "''c++''" "''2026-01-01''"]
  have c: "map post_id (filter (taggedWith ''c++'') (getAllPosts catalogAllTag)) = [''b'', ''c'']"
    unfolding taggedWith_list_ex by code_simp
  have c0: "map post_id (filter (taggedWith ''c++'') catalogAllTag) = [''b'', ''c'']"
    unfolding taggedWith_list_ex by code_simp
  have c1: "getPostsByTag catalogAllTag ''all'' = getAllPosts catalogAllTag"
    using T by blast
  have c2: "map post_id (getPostsByTag catalogAllTag ''c++'') = [''b'', ''c'']"
    using T ne c by simp
  have c3: "sorted_wrt notOlder (getPostsByTag catalogAllTag ''c++'')"
    using T ne by blast
  show ?thesis
    by (intro conjI) (rule v, rule c1, rule c2, rule c0, rule c3)
qed

lemma tagged_listing_newest_first:
  assumes "validDates C"
  shows "mset (filter (taggedWith t) (getAllPosts C)) = filter_mset (taggedWith t) (mset C)
       \<and> sorted_wrt notOlder (filter (taggedWith t) (getAllPosts C))
       \<and> filter (taggedWith t) (getAllPosts C) = sort_key timeKey (filter (taggedWith t) C)
       \<and> filter (\<lambda>p. date p = d) (filter (taggedWith t) (getAllPosts C))
           = filter (\<lambda>p. date p = d) (filter (taggedWith t) C)"
proof -
  have m: "mset (filter (taggedWith t) (getAllPosts C)) = filter_mset (taggedWith t) (mset C)"
    using assms by (simp add: mset_getAllPosts)
  have o: "sorted_wrt notOlder (filter (taggedWith t) (getAllPosts C))"
    using sorted_wrt_notOlder[OF assms] by (rule sorted_wrt_filter)
  have k: "filter (taggedWith t) (getAllPosts C) = sort_key timeKey (filter (taggedWith t) C)"
    by (simp add: getAllPosts_sort_key[OF assms] filter_sort)
  have "filter (\<lambda>p. date p = d) (filter (taggedWith t) (getAllPosts C))
      = filter (taggedWith t) (filter (\<lambda>p. date p = d) (getAllPosts C))"
    by (simp add: conj_commute)
  also have "\<dots> = filter (taggedWith t) (filter (\<lambda>p. date p = d) C)"
    by (simp only: getAllPosts_stable_date[OF assms])
  also have "\<dots> = filter (\<lambda>p. date p = d) (filter (taggedWith t) C)"
    by (simp add: conj_commute)
  finally have e: "filter (\<lambda>p. date p = d) (filter (taggedWith t) (getAllPosts C))
      = filter (\<lambda>p. date p = d) (filter (taggedWith t) C)" .
  from m o k e show ?thesis by simp
qed

text \<open>
  C9. Only the exact string \<open>all\<close> is the sentinel. For every other argument, \<open>All\<close> and
  \<open>ALL\<close> among them, \<open>getPostsByTag\<close> returns the newest-first posts with a tag equal to
  the argument up to letter case (for \<open>All\<close> and \<open>ALL\<close>: the posts tagged \<open>all\<close> in any
  case). For \<open>all\<close> itself it returns the whole listing, a permutation of the catalog,
  whether or not a post carries the tag \<open>all\<close>. Newest-first, for a catalog with
  well-formed dates: the result holds exactly the matching posts of the catalog, each as
  often as the catalog does; it is sorted by date descending; posts of one date keep
  their catalog order; so it is the stable sort by date descending of the matching posts
  (for \<open>all\<close>: of the whole catalog).
\<close>

theorem getPostsByTag_sentinel_exact:
  "(t \<noteq> ''all'' \<longrightarrow> getPostsByTag C t = filter (taggedWith t) (getAllPosts C))
   \<and> getPostsByTag C ''All'' = filter (taggedWith ''all'') (getAllPosts C)
   \<and> getPostsByTag C ''ALL'' = filter (taggedWith ''all'') (getAllPosts C)
   \<and> getPostsByTag C ''all'' = getAllPosts C
   \<and> mset (getPostsByTag C ''all'') = mset C
   \<and> (validDates C \<longrightarrow>
        (t \<noteq> ''all'' \<longrightarrow>
           mset (getPostsByTag C t) = filter_mset (taggedWith t) (mset C)
           \<and> sorted_wrt notOlder (getPostsByTag C t)
           \<and> filter (\<lambda>p. date p = d) (getPostsByTag C t)
               = filter (\<lambda>p. date p = d) (filter (taggedWith t) C)
           \<and> getPostsByTag C t = sort_key timeKey (filter (taggedWith t) C))
        \<and> mset (getPostsByTag C ''All'') = filter_mset (taggedWith ''all'') (mset C)
        \<and> sorted_wrt notOlder (getPostsByTag C ''All'')
        \<and> getPostsByTag C ''All'' = sort_key timeKey (filter (taggedWith ''all'') C)
        \<and> mset (getPostsByTag C ''ALL'') = filter_mset (taggedWith ''all'') (mset C)
        \<and> sorted_wrt notOlder (getPostsByTag C ''ALL'')
        \<and> getPostsByTag C ''ALL'' = sort_key timeKey (filter (taggedWith ''all'') C)
        \<and> sorted_wrt notOlder (getPostsByTag C ''all'')
        \<and> filter (\<lambda>p. date p = d) (getPostsByTag C ''all'') = filter (\<lambda>p. date p = d) C
        \<and> getPostsByTag C ''all'' = sort_key timeKey C)"
proof -
  have 1: "taggedWith ''All'' = taggedWith ''all''"
    by (rule taggedWith_cong) (simp add: toLowerCase_All)
  have 2: "taggedWith ''ALL'' = taggedWith ''all''"
    by (rule taggedWith_cong) (simp add: toLowerCase_All)
  have 3: "getPostsByTag C ''All'' = filter (taggedWith ''all'') (getAllPosts C)"
    using getPostsByTag_filter[of "''All''" C] by (simp add: 1)
  have 4: "getPostsByTag C ''ALL'' = filter (taggedWith ''all'') (getAllPosts C)"
    using getPostsByTag_filter[of "''ALL''" C] by (simp add: 2)
  have 5: "mset (getPostsByTag C ''all'') = mset C"
    by (simp add: getPostsByTag_all getAllPosts_def mset_array_sort)
  have 6: "t \<noteq> ''all'' \<longrightarrow> getPostsByTag C t = filter (taggedWith t) (getAllPosts C)"
    by (simp add: getPostsByTag_filter)
  have 7: "getPostsByTag C ''all'' = getAllPosts C"
    by (rule getPostsByTag_all)
  have v: "(t \<noteq> ''all'' \<longrightarrow>
           mset (getPostsByTag C t) = filter_mset (taggedWith t) (mset C)
           \<and> sorted_wrt notOlder (getPostsByTag C t)
           \<and> filter (\<lambda>p. date p = d) (getPostsByTag C t)
               = filter (\<lambda>p. date p = d) (filter (taggedWith t) C)
           \<and> getPostsByTag C t = sort_key timeKey (filter (taggedWith t) C))
        \<and> mset (getPostsByTag C ''All'') = filter_mset (taggedWith ''all'') (mset C)
        \<and> sorted_wrt notOlder (getPostsByTag C ''All'')
        \<and> getPostsByTag C ''All'' = sort_key timeKey (filter (taggedWith ''all'') C)
        \<and> mset (getPostsByTag C ''ALL'') = filter_mset (taggedWith ''all'') (mset C)
        \<and> sorted_wrt notOlder (getPostsByTag C ''ALL'')
        \<and> getPostsByTag C ''ALL'' = sort_key timeKey (filter (taggedWith ''all'') C)
        \<and> sorted_wrt notOlder (getPostsByTag C ''all'')
        \<and> filter (\<lambda>p. date p = d) (getPostsByTag C ''all'') = filter (\<lambda>p. date p = d) C
        \<and> getPostsByTag C ''all'' = sort_key timeKey C" if vd: "validDates C"
  proof -
    note g = tagged_listing_newest_first[OF vd, of t d]
    note a = tagged_listing_newest_first[OF vd, of "''all''" d]
    have t1: "t \<noteq> ''all'' \<longrightarrow>
           mset (getPostsByTag C t) = filter_mset (taggedWith t) (mset C)
           \<and> sorted_wrt notOlder (getPostsByTag C t)
           \<and> filter (\<lambda>p. date p = d) (getPostsByTag C t)
               = filter (\<lambda>p. date p = d) (filter (taggedWith t) C)
           \<and> getPostsByTag C t = sort_key timeKey (filter (taggedWith t) C)"
    proof
      assume "t \<noteq> ''all''"
      then have eq: "getPostsByTag C t = filter (taggedWith t) (getAllPosts C)"
        by (rule getPostsByTag_filter)
      show "mset (getPostsByTag C t) = filter_mset (taggedWith t) (mset C)
           \<and> sorted_wrt notOlder (getPostsByTag C t)
           \<and> filter (\<lambda>p. date p = d) (getPostsByTag C t)
               = filter (\<lambda>p. date p = d) (filter (taggedWith t) C)
           \<and> getPostsByTag C t = sort_key timeKey (filter (taggedWith t) C)"
        unfolding eq using g by blast
    qed
    have t2: "mset (getPostsByTag C ''All'') = filter_mset (taggedWith ''all'') (mset C)
        \<and> sorted_wrt notOlder (getPostsByTag C ''All'')
        \<and> getPostsByTag C ''All'' = sort_key timeKey (filter (taggedWith ''all'') C)"
      unfolding 3 using a by blast
    have t3: "mset (getPostsByTag C ''ALL'') = filter_mset (taggedWith ''all'') (mset C)
        \<and> sorted_wrt notOlder (getPostsByTag C ''ALL'')
        \<and> getPostsByTag C ''ALL'' = sort_key timeKey (filter (taggedWith ''all'') C)"
      unfolding 4 using a by blast
    have t4: "sorted_wrt notOlder (getPostsByTag C ''all'')
        \<and> filter (\<lambda>p. date p = d) (getPostsByTag C ''all'') = filter (\<lambda>p. date p = d) C
        \<and> getPostsByTag C ''all'' = sort_key timeKey C"
      unfolding 7
      using sorted_wrt_notOlder[OF vd] getAllPosts_stable_date[OF vd, of d]
        getAllPosts_sort_key[OF vd]
      by blast
    from t1 t2 t3 t4 show ?thesis by blast
  qed
  from 3 4 5 6 7 v show ?thesis by blast
qed

theorem getPostsByTag_sentinel_exact_witness:
  "validDates catalogUnsorted
   \<and> map post_id catalogUnsorted = [''o'', ''n'', ''m'']
   \<and> map post_id (getPostsByTag catalogUnsorted ''all'') = [''n'', ''m'', ''o'']
   \<and> map post_id (filter (taggedWith ''all'') catalogUnsorted) = [''o'', ''n'']
   \<and> map post_id (getPostsByTag catalogUnsorted ''All'') = [''n'', ''o'']
   \<and> map post_id (getPostsByTag catalogUnsorted ''ALL'') = [''n'', ''o'']
   \<and> map post_id (getPostsByTag catalogUnsorted ''C++'') = [''m'', ''o'']
   \<and> map post_id (filter (taggedWith ''C++'') catalogUnsorted) = [''o'', ''m'']
   \<and> sorted_wrt notOlder (getPostsByTag catalogUnsorted ''All'')
   \<and> sorted_wrt notOlder (getPostsByTag catalogUnsorted ''C++'')
   \<and> sorted_wrt notOlder (getPostsByTag catalogUnsorted ''all'')
   \<and> \<not> sorted_wrt notOlder catalogUnsorted
   \<and> mset (getPostsByTag catalogUnsorted ''all'') = mset catalogUnsorted"
proof -
  note T = getPostsByTag_sentinel_exact[of "''C++''" catalogUnsorted "''2026-01-01''"]
  have v: "validDates catalogUnsorted"
    by code_simp
  have ne: "''C++'' \<noteq> ''all''"
    by simp
  have i: "map post_id catalogUnsorted = [''o'', ''n'', ''m'']"
    by code_simp
  have a: "map post_id (getAllPosts catalogUnsorted) = [''n'', ''m'', ''o'']"
    by code_simp
  have b: "map post_id (filter (taggedWith ''all'') (getAllPosts catalogUnsorted)) = [''n'', ''o'']"
    unfolding taggedWith_list_ex by code_simp
  have b0: "map post_id (filter (taggedWith ''all'') catalogUnsorted) = [''o'', ''n'']"
    unfolding taggedWith_list_ex by code_simp
  have c: "map post_id (filter (taggedWith ''C++'') (getAllPosts catalogUnsorted)) = [''m'', ''o'']"
    unfolding taggedWith_list_ex by code_simp
  have c0: "map post_id (filter (taggedWith ''C++'') catalogUnsorted) = [''o'', ''m'']"
    unfolding taggedWith_list_ex by code_simp
  have u: "\<not> sorted_wrt notOlder catalogUnsorted"
    by code_simp
  have c1: "map post_id (getPostsByTag catalogUnsorted ''all'') = [''n'', ''m'', ''o'']"
    using T a by simp
  have c3: "map post_id (getPostsByTag catalogUnsorted ''All'') = [''n'', ''o'']"
    using T b by simp
  have c4: "map post_id (getPostsByTag catalogUnsorted ''ALL'') = [''n'', ''o'']"
    using T b by simp
  have c5: "map post_id (getPostsByTag catalogUnsorted ''C++'') = [''m'', ''o'']"
    using T c ne by simp
  have s1: "sorted_wrt notOlder (getPostsByTag catalogUnsorted ''All'')"
    using T v by blast
  have s2: "sorted_wrt notOlder (getPostsByTag catalogUnsorted ''C++'')"
    using T v ne by blast
  have s3: "sorted_wrt notOlder (getPostsByTag catalogUnsorted ''all'')"
    using T v by blast
  have c6: "mset (getPostsByTag catalogUnsorted ''all'') = mset catalogUnsorted"
    using T by blast
  show ?thesis
    by (intro conjI) (rule v, rule i, rule c1, rule b0, rule c3, rule c4, rule c5, rule c0,
        rule s1, rule s2, rule s3, rule u, rule c6)
qed

section \<open>Search\<close>

lemma includes_str_sublist: "includes_str s q = sublist q s"
  by (induction s) (simp_all add: sublist_Cons_right)

lemma search_pred_matchesQuery:
  "(includes_str (toLowerCase (title p)) (toLowerCase q)
     \<or> includes_str (toLowerCase (summary p)) (toLowerCase q)
     \<or> some (\<lambda>tag. includes_str (toLowerCase tag) (toLowerCase q)) (tags p))
   = matchesQuery q p"
  by (simp add: matchesQuery_def includes_str_sublist some_def list_ex_iff)

lemma searchPosts_filter: "searchPosts C q = filter (matchesQuery q) (getAllPosts C)"
  by (simp add: searchPosts_def Let_def search_pred_matchesQuery)

lemma matchesQuery_empty: "matchesQuery [] p"
  by (simp add: matchesQuery_def toLowerCase_def)

lemma searchPosts_empty: "searchPosts C [] = getAllPosts C"
  by (simp add: searchPosts_filter matchesQuery_empty)

lemma filteredPosts_displayPosts: "filteredPosts (displayPosts st) = filteredPosts st"
  by (simp add: displayPosts_def Let_def split: option.split)

lemma filteredPosts_filterByTag: "filteredPosts (filterByTag C t st) = getPostsByTag C t"
  by (simp add: filterByTag_def loadPosts_def filteredPosts_displayPosts)

lemma filteredPosts_handleSearch:
  "filteredPosts (handleSearch C q st)
   = (if trim q = [] then getPostsByTag C (currentTag st) else searchPosts C q)"
  by (simp add: handleSearch_def filteredPosts_filterByTag filteredPosts_displayPosts)

text \<open>
  C3 as stated fails: \<open>searchPosts\<close> does not trim, so a query of two spaces is matched as
  a substring and finds nothing in the repository's catalog, where the unfiltered listing
  has five posts; and \<open>handleSearch\<close>, given that blank query after the tag \<open>C++\<close> was
  chosen, shows the two posts of that tag, not the unfiltered listing.
\<close>

theorem search_blank_query_counterexample:
  "trim ''  '' = []
   \<and> searchPosts POSTS ''  '' = []
   \<and> length (getAllPosts POSTS) = 5
   \<and> currentTag blogAfterTagClick = ''C++''
   \<and> map post_id (filteredPosts (handleSearch POSTS ''  '' blogAfterTagClick))
       = [''understanding-move-semantics-cpp'', ''modern-cpp-best-practices'']
   \<and> searchPosts POSTS ''  '' \<noteq> getAllPosts POSTS
   \<and> filteredPosts (handleSearch POSTS ''  '' blogAfterTagClick) \<noteq> getAllPosts POSTS"
proof -
  have a: "trim ''  '' = []"
    by code_simp
  have b: "searchPosts POSTS ''  '' = []"
    by code_simp
  have c: "length (getAllPosts POSTS) = 5"
    by code_simp
  have d: "currentTag blogAfterTagClick = ''C++''"
    by (simp add: blogAfterTagClick_def filterByTag_def loadPosts_def displayPosts_def Let_def
          initialBlog_def)
  have e: "map post_id (getPostsByTag POSTS ''C++'')
         = [''understanding-move-semantics-cpp'', ''modern-cpp-best-practices'']"
    by code_simp
  have f: "filteredPosts (handleSearch POSTS ''  '' blogAfterTagClick)
         = getPostsByTag POSTS ''C++''"
    by (simp add: filteredPosts_handleSearch a d)
  have g: "searchPosts POSTS ''  '' \<noteq> getAllPosts POSTS"
    using b c by auto
  have "length (filteredPosts (handleSearch POSTS ''  '' blogAfterTagClick)) = 2"
    using arg_cong[OF e, of length] by (simp add: f)
  with c have h: "filteredPosts (handleSearch POSTS ''  '' blogAfterTagClick) \<noteq> getAllPosts POSTS"
    by auto
  show ?thesis
    by (intro conjI) (rule a, rule b, rule c, rule d, simp only: f e, rule g, rule h)
qed

lemma trim_empty_iff: "(trim q = []) = list_all isWhiteSpace q"
proof -
  have "(\<forall>x \<in> set (dropWhile isWhiteSpace q). isWhiteSpace x) = (\<forall>x \<in> set q. isWhiteSpace x)"
  proof
    assume a: "\<forall>x \<in> set (dropWhile isWhiteSpace q). isWhiteSpace x"
    have "dropWhile isWhiteSpace q = []"
    proof (rule ccontr)
      assume n: "dropWhile isWhiteSpace q \<noteq> []"
      then have "\<not> isWhiteSpace (hd (dropWhile isWhiteSpace q))"
        by (rule hd_dropWhile)
      moreover have "hd (dropWhile isWhiteSpace q) \<in> set (dropWhile isWhiteSpace q)"
        using n by (rule hd_in_set)
      ultimately show False
        using a by blast
    qed
    then show "\<forall>x \<in> set q. isWhiteSpace x"
      by (simp only: dropWhile_eq_Nil_conv)
  next
    assume "\<forall>x \<in> set q. isWhiteSpace x"
    then show "\<forall>x \<in> set (dropWhile isWhiteSpace q). isWhiteSpace x"
      by (blast dest: set_dropWhileD)
  qed
  then show ?thesis
    by (simp add: trim_def dropWhile_eq_Nil_conv list_all_iff)
qed

lemma slice_first_page: "slice xs 0 (0 + 9) = take 9 xs"
  by (auto simp: slice_def Let_def min_def)

lemma displayPosts_first_page:
  assumes "currentPage st = 1"
  shows "currentTag (displayPosts st) = currentTag st
       \<and> currentPage (displayPosts st) = 1
       \<and> filteredPosts (displayPosts st) = filteredPosts st
       \<and> container (displayPosts st)
           = map_option (\<lambda>shown. take 9 (filteredPosts st)) (container st)
       \<and> searchInput (displayPosts st) = searchInput st"
  using assms slice_first_page[of "filteredPosts st"]
  by (simp add: displayPosts_def Let_def postsPerPage_def split: option.split)

lemma handleSearch_blank:
  assumes "trim q = []"
  shows "currentTag (handleSearch C q st) = currentTag st
       \<and> currentPage (handleSearch C q st) = 1
       \<and> filteredPosts (handleSearch C q st) = getPostsByTag C (currentTag st)
       \<and> container (handleSearch C q st)
           = map_option (\<lambda>shown. take 9 (getPostsByTag C (currentTag st))) (container st)
       \<and> searchInput (handleSearch C q st) = map_option (\<lambda>v. []) (searchInput st)"
  using assms
    displayPosts_first_page[of "st\<lparr>currentTag := currentTag st, currentPage := 1,
        searchInput := map_option (\<lambda>v. []) (searchInput st),
        filteredPosts := getPostsByTag C (currentTag st)\<rparr>"]
  by (simp add: handleSearch_def filterByTag_def loadPosts_def)

lemma handleSearch_query:
  assumes "trim q \<noteq> []"
  shows "currentTag (handleSearch C q st) = currentTag st
       \<and> currentPage (handleSearch C q st) = 1
       \<and> filteredPosts (handleSearch C q st) = searchPosts C q
       \<and> container (handleSearch C q st)
           = map_option (\<lambda>shown. take 9 (searchPosts C q)) (container st)
       \<and> searchInput (handleSearch C q st) = searchInput st"
  using assms
    displayPosts_first_page[of "st\<lparr>filteredPosts := searchPosts C q, currentPage := 1\<rparr>"]
  by (simp add: handleSearch_def)

text \<open>
  C3, amended. \<open>searchPosts\<close> with the empty query returns the unfiltered newest-first
  listing, which is also \<open>getPostsByTag\<close> of \<open>all\<close>. For every query \<open>q\<close>, \<open>searchPosts C q\<close> is
  the newest-first listing restricted to the posts where the lowercased \<open>q\<close> is a substring
  of the lowercased title, summary or of some lowercased tag (with well-formed dates:
  exactly those posts of the catalog, sorted by date descending, posts of one date in
  catalog order). A query is empty after trimming exactly when all its characters are
  white space. Given such a query, \<open>handleSearch\<close> keeps the current tag, returns to page
  1, empties the search box, sets \<open>filteredPosts\<close> to \<open>getPostsByTag\<close> of the current tag and
  shows its first nine posts in the container (if the page has one); this is the
  unfiltered listing when the current tag is \<open>all\<close>. Given any other query it keeps the
  current tag and the search box, returns to page 1, sets \<open>filteredPosts\<close> to \<open>searchPosts\<close>
  of the query and shows its first nine posts.
\<close>

theorem searchPosts_substring_match:
  "searchPosts C [] = getAllPosts C
   \<and> searchPosts C [] = getPostsByTag C ''all''
   \<and> searchPosts C q = filter (matchesQuery q) (getAllPosts C)
   \<and> (validDates C \<longrightarrow>
        set (searchPosts C q) = {p \<in> set C. matchesQuery q p}
        \<and> mset (searchPosts C q) = filter_mset (matchesQuery q) (mset C)
        \<and> sorted_wrt notOlder (searchPosts C q)
        \<and> searchPosts C q = sort_key timeKey (filter (matchesQuery q) C))
   \<and> (trim q = []) = list_all isWhiteSpace q
   \<and> (trim q = [] \<longrightarrow>
        currentTag (handleSearch C q st) = currentTag st
        \<and> currentPage (handleSearch C q st) = 1
        \<and> filteredPosts (handleSearch C q st) = getPostsByTag C (currentTag st)
        \<and> container (handleSearch C q st)
            = map_option (\<lambda>shown. take 9 (getPostsByTag C (currentTag st))) (container st)
        \<and> searchInput (handleSearch C q st) = map_option (\<lambda>v. []) (searchInput st))
   \<and> (trim q = [] \<and> currentTag st = ''all'' \<longrightarrow>
        filteredPosts (handleSearch C q st) = getAllPosts C
        \<and> container (handleSearch C q st)
            = map_option (\<lambda>shown. take 9 (getAllPosts C)) (container st))
   \<and> (trim q \<noteq> [] \<longrightarrow>
        currentTag (handleSearch C q st) = currentTag st
        \<and> currentPage (handleSearch C q st) = 1
        \<and> filteredPosts (handleSearch C q st) = searchPosts C q
        \<and> container (handleSearch C q st)
            = map_option (\<lambda>shown. take 9 (searchPosts C q)) (container st)
        \<and> searchInput (handleSearch C q st) = searchInput st)"
proof -
  have e: "searchPosts C [] = getAllPosts C"
    by (rule searchPosts_empty)
  have f: "searchPosts C q = filter (matchesQuery q) (getAllPosts C)"
    by (rule searchPosts_filter)
  have v: "set (searchPosts C q) = {p \<in> set C. matchesQuery q p}
        \<and> mset (searchPosts C q) = filter_mset (matchesQuery q) (mset C)
        \<and> sorted_wrt notOlder (searchPosts C q)
        \<and> searchPosts C q = sort_key timeKey (filter (matchesQuery q) C)" if vd: "validDates C"
  proof -
    have 1: "set (filter (matchesQuery q) (getAllPosts C)) = {p \<in> set C. matchesQuery q p}"
      using vd by (auto simp: set_getAllPosts)
    have 2: "mset (filter (matchesQuery q) (getAllPosts C))
           = filter_mset (matchesQuery q) (mset C)"
      using vd by (simp add: mset_getAllPosts)
    have 3: "sorted_wrt notOlder (filter (matchesQuery q) (getAllPosts C))"
      using sorted_wrt_notOlder[OF vd] by (rule sorted_wrt_filter)
    have 4: "filter (matchesQuery q) (getAllPosts C)
           = sort_key timeKey (filter (matchesQuery q) C)"
      by (simp add: getAllPosts_sort_key[OF vd] filter_sort)
    show ?thesis
      unfolding f using 1 2 3 4 by blast
  qed
  have b: "trim q = [] \<and> currentTag st = ''all'' \<longrightarrow>
        filteredPosts (handleSearch C q st) = getAllPosts C
        \<and> container (handleSearch C q st)
            = map_option (\<lambda>shown. take 9 (getAllPosts C)) (container st)"
    using handleSearch_blank[of q C st] by (simp add: getPostsByTag_all)
  from e f v b trim_empty_iff[of q] handleSearch_blank[of q C st] handleSearch_query[of q C st]
  show ?thesis
    by (simp only: getPostsByTag_all) blast
qed

theorem searchPosts_substring_match_witness:
  "validDates catalogUnsorted
   \<and> map post_id catalogUnsorted = [''o'', ''n'', ''m'']
   \<and> map post_id (filter (matchesQuery ''C+'') (getAllPosts catalogUnsorted)) = [''m'', ''o'']
   \<and> sorted_wrt notOlder (searchPosts catalogUnsorted ''C+'')
   \<and> trim ''C+'' \<noteq> []
   \<and> currentPage blogOnSecondPage = 2
   \<and> currentPage (handleSearch catalogUnsorted ''C+'' blogOnSecondPage) = 1
   \<and> map post_id (filteredPosts (handleSearch catalogUnsorted ''C+'' blogOnSecondPage))
       = [''m'', ''o'']
   \<and> map_option (map post_id) (container (handleSearch catalogUnsorted ''C+'' blogOnSecondPage))
       = Some [''m'', ''o'']
   \<and> trim [char_of (160 :: nat), CHR '' ''] = []
   \<and> map_option (map post_id)
        (container (handleSearch catalogUnsorted [char_of (160 :: nat), CHR '' ''] blogOnSecondPage))
       = Some [''n'', ''m'', ''o'']
   \<and> searchInput (handleSearch catalogUnsorted [char_of (160 :: nat), CHR '' ''] blogOnSecondPage)
       = Some []"
proof -
  let ?b = "[char_of (160 :: nat), CHR '' '']"
  note T = searchPosts_substring_match[of catalogUnsorted "''C+''" blogOnSecondPage]
  note U = searchPosts_substring_match[of catalogUnsorted ?b blogOnSecondPage]
  have v: "validDates catalogUnsorted"
    by code_simp
  have i: "map post_id catalogUnsorted = [''o'', ''n'', ''m'']"
    by code_simp
  have s: "map post_id (searchPosts catalogUnsorted ''C+'') = [''m'', ''o'']"
    by code_simp
  have s9: "map post_id (take 9 (searchPosts catalogUnsorted ''C+'')) = [''m'', ''o'']"
    by code_simp
  have a9: "map post_id (take 9 (getAllPosts catalogUnsorted)) = [''n'', ''m'', ''o'']"
    by code_simp
  have t1: "trim ''C+'' \<noteq> []"
    by code_simp
  have t2: "trim ?b = []"
    by code_simp
  have p2: "currentPage blogOnSecondPage = 2"
    by (simp add: blogOnSecondPage_def)
  have ct: "currentTag blogOnSecondPage = ''all''"
    by (simp add: blogOnSecondPage_def)
  have cn: "container blogOnSecondPage = Some []"
    by (simp add: blogOnSecondPage_def)
  have si: "searchInput blogOnSecondPage = Some ''C+''"
    by (simp add: blogOnSecondPage_def)
  have "searchPosts catalogUnsorted ''C+''
      = filter (matchesQuery ''C+'') (getAllPosts catalogUnsorted)"
    using T by blast
  with s have c3:
    "map post_id (filter (matchesQuery ''C+'') (getAllPosts catalogUnsorted)) = [''m'', ''o'']"
    by simp
  have c4: "sorted_wrt notOlder (searchPosts catalogUnsorted ''C+'')"
    using T v by blast
  have c7: "currentPage (handleSearch catalogUnsorted ''C+'' blogOnSecondPage) = 1"
    using T t1 by blast
  have "filteredPosts (handleSearch catalogUnsorted ''C+'' blogOnSecondPage)
      = searchPosts catalogUnsorted ''C+''"
    using T t1 by blast
  with s have c8:
    "map post_id (filteredPosts (handleSearch catalogUnsorted ''C+'' blogOnSecondPage))
     = [''m'', ''o'']"
    by simp
  have "container (handleSearch catalogUnsorted ''C+'' blogOnSecondPage)
      = map_option (\<lambda>shown. take 9 (searchPosts catalogUnsorted ''C+''))
          (container blogOnSecondPage)"
    using T t1 by blast
  then have c9:
    "map_option (map post_id) (container (handleSearch catalogUnsorted ''C+'' blogOnSecondPage))
     = Some [''m'', ''o'']"
    by (simp only: cn option.map s9)
  have "container (handleSearch catalogUnsorted ?b blogOnSecondPage)
      = map_option (\<lambda>shown. take 9 (getAllPosts catalogUnsorted)) (container blogOnSecondPage)"
    using U t2 ct by blast
  then have c11:
    "map_option (map post_id) (container (handleSearch catalogUnsorted ?b blogOnSecondPage))
     = Some [''n'', ''m'', ''o'']"
    by (simp only: cn option.map a9)
  have "searchInput (handleSearch catalogUnsorted ?b blogOnSecondPage)
      = map_option (\<lambda>v. []) (searchInput blogOnSecondPage)"
    using U t2 by blast
  then have c12: "searchInput (handleSearch catalogUnsorted ?b blogOnSecondPage) = Some []"
    by (simp only: si option.map)
  show ?thesis
    by (intro conjI) (rule v, rule i, rule c3, rule c4, rule t1, rule p2, rule c7, rule c8,
        rule c9, rule t2, rule c11, rule c12)
qed

section \<open>Pagination\<close>

lemma slice_page:
  assumes "0 \<le> a" and "0 \<le> n"
  shows "slice xs a (a + n) = take (nat n) (drop (nat a) xs)"
proof (cases "a \<le> int (length xs)")
  case True
  then show ?thesis
    using assms by (auto simp: slice_def Let_def min_def take_all_iff)
next
  case False
  then show ?thesis
    using assms by (auto simp: slice_def Let_def min_def)
qed

lemma take_drop_map_nth:
  "take n (drop a xs) = map (\<lambda>i. xs ! i) [a ..< min (a + n) (length xs)]"
proof (rule nth_equalityI)
  show "length (take n (drop a xs)) = length (map (\<lambda>i. xs ! i) [a ..< min (a + n) (length xs)])"
    by (auto simp: min_def)
next
  fix i
  assume "i < length (take n (drop a xs))"
  then have i: "i < n" "a + i < length xs"
    by auto
  then have "map (\<lambda>i. xs ! i) [a ..< min (a + n) (length xs)] ! i = xs ! (a + i)"
    by (simp add: min_def)
  with i show "take n (drop a xs) ! i = map (\<lambda>i. xs ! i) [a ..< min (a + n) (length xs)] ! i"
    by simp
qed

lemma displayPosts_shows:
  assumes "container st \<noteq> None" and "1 \<le> currentPage st"
  shows "container (displayPosts st)
         = Some (map (\<lambda>i. filteredPosts st ! i)
                   [nat ((currentPage st - 1) * 9) ..<
                    min (nat (currentPage st * 9)) (length (filteredPosts st))])"
proof -
  let ?p = "currentPage st" and ?xs = "filteredPosts st"
  have s: "slice ?xs ((?p - 1) * 9) ((?p - 1) * 9 + 9)
         = take (nat 9) (drop (nat ((?p - 1) * 9)) ?xs)"
    using assms(2) by (intro slice_page) simp_all
  have e: "nat ((?p - 1) * 9) + 9 = nat (?p * 9)"
    using assms(2) by (simp add: nat_add_distrib algebra_simps nat_diff_distrib nat_mult_distrib)
  show ?thesis
    using assms(1) s e
    by (auto simp: displayPosts_def Let_def postsPerPage_def take_drop_map_nth)
qed

text \<open>
  C7. When the page has a posts container and the current page \<open>p\<close> is at least 1, the
  posts \<open>displayPosts\<close> shows are the items of \<open>filteredPosts\<close> at the indices from
  \<open>(p - 1) * 9\<close> up to \<open>p * 9 - 1\<close> (as far as the sequence goes), in order; on page 2 of a
  sequence of 20 these are the items at positions 9 to 17. The same holds for the page
  shown after \<open>changePage\<close> to any page number from 1 to the number of pages.
\<close>

theorem displayPosts_page_slice:
  assumes "container st \<noteq> None" and "1 \<le> currentPage st"
  shows "container (displayPosts st)
         = Some (map (\<lambda>i. filteredPosts st ! i)
                   [nat ((currentPage st - 1) * 9) ..<
                    min (nat (currentPage st * 9)) (length (filteredPosts st))])
       \<and> (currentPage st = 2 \<and> length (filteredPosts st) = 20 \<longrightarrow>
            container (displayPosts st)
            = Some (map (\<lambda>i. filteredPosts st ! i) [9, 10, 11, 12, 13, 14, 15, 16, 17]))
       \<and> (1 \<le> p \<and> p \<le> totalPages st \<longrightarrow>
            container (changePage p st)
            = Some (map (\<lambda>i. filteredPosts st ! i)
                      [nat ((p - 1) * 9) ..< min (nat (p * 9)) (length (filteredPosts st))]))"
proof -
  note g = displayPosts_shows[OF assms]
  have u: "[9 ..< 18] = [9, 10, 11, 12, 13, 14, 15, 16, 17::nat]"
    by (simp add: upt_rec)
  have c: "container (changePage p st)
            = Some (map (\<lambda>i. filteredPosts st ! i)
                      [nat ((p - 1) * 9) ..< min (nat (p * 9)) (length (filteredPosts st))])"
    if "1 \<le> p" and "p \<le> totalPages st"
    using that assms(1) displayPosts_shows[of "st\<lparr>currentPage := p\<rparr>"]
    by (simp add: changePage_def)
  from g u c show ?thesis
    by auto
qed

theorem displayPosts_page_slice_witness:
  "container pageTwoOfTwenty \<noteq> None
   \<and> currentPage pageTwoOfTwenty = 2
   \<and> length (filteredPosts pageTwoOfTwenty) = 20
   \<and> map_option (map post_id) (container (displayPosts pageTwoOfTwenty))
       = Some [''j'', ''k'', ''l'', ''m'', ''n'', ''o'', ''p'', ''q'', ''r'']
   \<and> totalPages pageTwoOfTwenty = 3
   \<and> map_option (map post_id) (container (changePage 3 pageTwoOfTwenty))
       = Some [''s'', ''t'']"
proof -
  have c: "container pageTwoOfTwenty \<noteq> None"
    by (simp add: pageTwoOfTwenty_def)
  have p: "currentPage pageTwoOfTwenty = 2"
    by (simp add: pageTwoOfTwenty_def)
  have l: "length (filteredPosts pageTwoOfTwenty) = 20"
    by (simp add: pageTwoOfTwenty_def)
  have t: "totalPages pageTwoOfTwenty = 3"
    by (simp add: totalPages_def l postsPerPage_def)
  have n: "map post_id (map (\<lambda>i. filteredPosts pageTwoOfTwenty ! i)
                          [9, 10, 11, 12, 13, 14, 15, 16, 17])
         = [''j'', ''k'', ''l'', ''m'', ''n'', ''o'', ''p'', ''q'', ''r'']"
    by code_simp
  have m: "map post_id (map (\<lambda>i. filteredPosts pageTwoOfTwenty ! i) [18, 19]) = [''s'', ''t'']"
    by code_simp
  have r: "[nat ((3 - 1) * 9) ..< min (nat (3 * 9)) 20] = [18, 19]"
    by (simp add: upt_rec)
  note T = displayPosts_page_slice[OF c, where p = 3]
  from T p l
  have "container (displayPosts pageTwoOfTwenty)
      = Some (map (\<lambda>i. filteredPosts pageTwoOfTwenty ! i) [9, 10, 11, 12, 13, 14, 15, 16, 17])"
    by simp
  then have d: "map_option (map post_id) (container (displayPosts pageTwoOfTwenty))
       = Some [''j'', ''k'', ''l'', ''m'', ''n'', ''o'', ''p'', ''q'', ''r'']"
    by (simp only: option.map n)
  from T p t
  have "container (changePage 3 pageTwoOfTwenty)
      = Some (map (\<lambda>i. filteredPosts pageTwoOfTwenty ! i)
                [nat ((3 - 1) * 9) ..< min (nat (3 * 9)) (length (filteredPosts pageTwoOfTwenty))])"
    by simp
  then have "container (changePage 3 pageTwoOfTwenty)
      = Some (map (\<lambda>i. filteredPosts pageTwoOfTwenty ! i) [18, 19])"
    by (simp only: l r)
  then have e: "map_option (map post_id) (container (changePage 3 pageTwoOfTwenty))
       = Some [''s'', ''t'']"
    by (simp only: option.map m)
  show ?thesis
    by (intro conjI) (rule c, rule p, rule l, rule d, rule t, rule e)
qed

section \<open>Related posts\<close>

lemma withScore_simps:
  "post_id (withScore p n) = post_id p" "score (withScore p n) = n"
  "tags (withScore p n) = tags p" "date (withScore p n) = date p"
  "post.truncate (withScore p n) = p"
  by (simp_all add: withScore_def post.defs scored_post.defs)

lemma slice_0: "slice xs 0 k = take (if k < 0 then nat (int (length xs) + k) else nat k) xs"
  by (auto simp: slice_def Let_def min_def max_def)

lemma scoreCompare_key:
  "(sortCompare scoreCompare x y \<le> 0) = (- score x \<le> - score y)"
  by (simp add: sortCompare_def scoreCompare_def)

lemma array_sort_scoreCompare: "array_sort scoreCompare xs = sort_key (\<lambda>r. - score r) xs"
  by (rule array_sort_sort_key) (rule scoreCompare_key)

lemma getRelatedPosts_Some:
  assumes "getPostById C i = Some src"
  shows "getRelatedPosts C i k
       = slice (sort_key (\<lambda>r. - score r) (filter (\<lambda>r. 0 < score r) (candidates C i src))) 0 k"
  using assms by (simp add: getRelatedPosts_def candidates_def array_sort_scoreCompare)

lemma getRelatedPosts_None:
  assumes "getPostById C i = None"
  shows "getRelatedPosts C i k = []"
  using assms by (simp add: getRelatedPosts_def)

lemma sorted_wrt_insort_key_lex:
  fixes key :: "'a \<Rightarrow> 'k::linorder"
  assumes "sorted_wrt (\<lambda>a b. key a < key b \<or> (key a = key b \<and> Q a b)) ys"
    and "\<forall>y \<in> set ys. Q x y"
  shows "sorted_wrt (\<lambda>a b. key a < key b \<or> (key a = key b \<and> Q a b)) (insort_key key x ys)"
  using assms
proof (induction ys)
  case Nil
  then show ?case by simp
next
  case (Cons y ys)
  show ?case
  proof (cases "key x \<le> key y")
    case True
    have "key x < key z \<or> (key x = key z \<and> Q x z)" if "z \<in> set (y # ys)" for z
    proof -
      have "key y \<le> key z"
        using that Cons.prems(1) by auto
      with True have "key x \<le> key z" by simp
      moreover have "Q x z" using that Cons.prems(2) by auto
      ultimately show ?thesis by auto
    qed
    with True Cons.prems(1) show ?thesis
      by simp
  next
    case False
    have "sorted_wrt (\<lambda>a b. key a < key b \<or> (key a = key b \<and> Q a b)) (insort_key key x ys)"
      using Cons.prems by (intro Cons.IH) simp_all
    with False Cons.prems(1) show ?thesis
      by (auto simp: set_insort_key)
  qed
qed

lemma sorted_wrt_sort_key_lex:
  fixes key :: "'a \<Rightarrow> 'k::linorder"
  assumes "sorted_wrt Q xs"
  shows "sorted_wrt (\<lambda>a b. key a < key b \<or> (key a = key b \<and> Q a b)) (sort_key key xs)"
  using assms
proof (induction xs)
  case Nil
  then show ?case by simp
next
  case (Cons x xs)
  then show ?case
    by (simp add: sorted_wrt_insort_key_lex)
qed

lemma key_lex_scoreThenDate:
  "(\<lambda>a b. - score a < - score b
           \<or> (- score a = - score b \<and> notOlder (post.truncate a) (post.truncate b)))
   = scoreThenDate"
  by (auto simp: scoreThenDate_def fun_eq_iff)

lemma sorted_wrt_candidates:
  assumes "sorted_wrt notOlder C"
  shows "sorted_wrt (\<lambda>a b. notOlder (post.truncate a) (post.truncate b))
           (filter (\<lambda>r. 0 < score r) (candidates C i src))"
proof -
  have "sorted_wrt notOlder (filter (\<lambda>p. post_id p \<noteq> i) C)"
    using assms by (rule sorted_wrt_filter)
  then have "sorted_wrt (\<lambda>a b. notOlder (post.truncate a) (post.truncate b)) (candidates C i src)"
    by (simp add: candidates_def sorted_wrt_map withScore_simps)
  then show ?thesis
    by (rule sorted_wrt_filter)
qed

lemma candidates_props:
  assumes "r \<in> set (candidates C i src)"
  shows "post_id r \<noteq> i \<and> post.truncate r \<in> set C
       \<and> score r = matchingTags src (post.truncate r)"
  using assms by (auto simp: candidates_def withScore_simps)

lemma filter_take_prefix: "prefix (filter P (take n xs)) (filter P xs)"
proof -
  have "filter P xs = filter P (take n xs) @ filter P (drop n xs)"
    by (simp flip: filter_append)
  then show ?thesis
    by (metis prefixI)
qed

text \<open>
  C1, amended. For an id that no post of the catalog has, \<open>getRelatedPosts\<close> returns the
  empty sequence. For the id of a post of the catalog the lookup finds a post \<open>src\<close>, and
  then: no result has
  that id; every result is a post of the catalog with its score, the number of its tags
  shared with \<open>src\<close>, and the score is positive; for a limit \<open>k \<ge> 0\<close> there are at most \<open>k\<close>
  results; the results are sorted by score descending; and ties are kept in catalog
  order: the results of any one score are an initial part of the catalog's candidates of
  that score, in the catalog's order. When the catalog itself is listed newest-first,
  this makes ties go by date descending.
\<close>

theorem getRelatedPosts_ranking:
  "((\<forall>p \<in> set C. post_id p \<noteq> i) \<longrightarrow> getRelatedPosts C i k = [])
   \<and> ((\<exists>p \<in> set C. post_id p = i) = (\<exists>src. getPostById C i = Some src))
   \<and> (\<forall>src. getPostById C i = Some src \<longrightarrow>
        (\<forall>r \<in> set (getRelatedPosts C i k).
            post_id r \<noteq> i \<and> post.truncate r \<in> set C
            \<and> score r = matchingTags src (post.truncate r) \<and> 0 < score r)
      \<and> (0 \<le> k \<longrightarrow> int (length (getRelatedPosts C i k)) \<le> k)
      \<and> sorted_wrt (\<lambda>a b. score b \<le> score a) (getRelatedPosts C i k)
      \<and> (\<forall>n. prefix (filter (\<lambda>r. score r = n) (getRelatedPosts C i k))
                      (filter (\<lambda>r. score r = n) (candidates C i src)))
      \<and> (sorted_wrt notOlder C \<longrightarrow> sorted_wrt scoreThenDate (getRelatedPosts C i k)))"
proof (intro conjI allI impI)
  assume "\<forall>p \<in> set C. post_id p \<noteq> i"
  then have "getPostById C i = None"
    by (simp add: getPostById_def find_None_iff)
  then show "getRelatedPosts C i k = []"
    by (rule getRelatedPosts_None)
next
  have "(getPostById C i = None) = (\<forall>p \<in> set C. post_id p \<noteq> i)"
    by (auto simp: getPostById_def find_None_iff)
  then show "(\<exists>p \<in> set C. post_id p = i) = (\<exists>src. getPostById C i = Some src)"
    by (cases "getPostById C i") auto
next
  fix src
  assume src: "getPostById C i = Some src"
  let ?cs = "filter (\<lambda>r. 0 < score r) (candidates C i src)"
  let ?L = "sort_key (\<lambda>r. - score r) ?cs"
  obtain m where R: "getRelatedPosts C i k = take m ?L"
    using getRelatedPosts_Some[OF src] by (simp add: slice_0)
  have sub: "set (getRelatedPosts C i k) \<subseteq> set ?cs"
    unfolding R using set_take_subset[of m ?L] by simp
  show "\<forall>r \<in> set (getRelatedPosts C i k).
            post_id r \<noteq> i \<and> post.truncate r \<in> set C
            \<and> score r = matchingTags src (post.truncate r) \<and> 0 < score r"
    using sub candidates_props[of _ C i src] by auto
  show "int (length (getRelatedPosts C i k)) \<le> k" if "0 \<le> k"
    using that by (simp add: getRelatedPosts_Some[OF src] slice_0)
  have "sorted (map (\<lambda>r. - score r) ?L)"
    by (rule sorted_sort_key)
  then have "sorted_wrt (\<lambda>a b. score b \<le> score a) ?L"
    by (simp add: sorted_map)
  then show "sorted_wrt (\<lambda>a b. score b \<le> score a) (getRelatedPosts C i k)"
    unfolding R by (rule sorted_wrt_take)
  show "prefix (filter (\<lambda>r. score r = n) (getRelatedPosts C i k))
               (filter (\<lambda>r. score r = n) (candidates C i src))" for n
  proof -
    have "filter (\<lambda>r. score r = n) ?L = filter (\<lambda>r. score r = n) ?cs"
      by (rule filter_sort_key_same_key[where k = "- n"]) simp
    moreover have "prefix (filter (\<lambda>r. score r = n) (take m ?L)) (filter (\<lambda>r. score r = n) ?L)"
      by (rule filter_take_prefix)
    moreover have "prefix (filter (\<lambda>r. score r = n) ?cs)
                      (filter (\<lambda>r. score r = n) (candidates C i src))"
    proof (cases "0 < n")
      case True
      then have "filter (\<lambda>r. score r = n) ?cs = filter (\<lambda>r. score r = n) (candidates C i src)"
        by (auto intro: filter_cong)
      then show ?thesis by simp
    next
      case False
      then have "filter (\<lambda>r. score r = n) ?cs = []"
        by (auto simp: filter_empty_conv)
      then show ?thesis by simp
    qed
    ultimately show ?thesis
      unfolding R by simp
  qed
  show "sorted_wrt scoreThenDate (getRelatedPosts C i k)" if "sorted_wrt notOlder C"
  proof -
    have "sorted_wrt (\<lambda>a b. - score a < - score b
           \<or> (- score a = - score b \<and> notOlder (post.truncate a) (post.truncate b))) ?L"
      by (rule sorted_wrt_sort_key_lex) (rule sorted_wrt_candidates[OF that])
    then have "sorted_wrt scoreThenDate ?L"
      by (simp only: key_lex_scoreThenDate)
    then show ?thesis
      unfolding R by (rule sorted_wrt_take)
  qed
qed

lemma length_filter_sum_count:
  assumes "finite S"
  shows "int (length (filter (\<lambda>t. t \<in> S) ts)) = (\<Sum>t \<in> S. int (count_list ts t))"
proof (induction ts)
  case Nil
  show ?case by simp
next
  case (Cons a ts)
  have "(\<Sum>t \<in> S. int (count_list (a # ts) t))
      = (\<Sum>t \<in> S. (if a = t then 1 else 0) + int (count_list ts t))"
    by (rule sum.cong) auto
  also have "\<dots> = (\<Sum>t \<in> S. if a = t then 1 else 0) + (\<Sum>t \<in> S. int (count_list ts t))"
    by (simp add: sum.distrib)
  also have "(\<Sum>t \<in> S. if a = t then 1 else (0::int)) = (if a \<in> S then 1 else 0)"
    using assms by (simp add: sum.delta')
  finally show ?case
    using Cons.IH by simp
qed

text \<open>
  C10. The score of a result counts the entries of its tag list that are equal, as
  strings, to a tag of the source post: it is the sum, over the source's distinct tags, of
  the number of times each occurs in the candidate's list. Putting one more tag \<open>u\<close> in front
  of a candidate's list adds 1 to the count when \<open>u\<close> is exactly a source tag (also when
  it is already in the list) and adds nothing otherwise, whatever its lowercase form.
\<close>

theorem getRelatedPosts_score_exact_occurrences:
  assumes "getPostById C i = Some src" and "r \<in> set (getRelatedPosts C i k)"
  shows "score r = int (length (filter (\<lambda>t. t \<in> set (tags src)) (tags r)))
       \<and> score r = (\<Sum>t \<in> set (tags src). int (count_list (tags r) t))
       \<and> matchingTags src (p\<lparr>tags := u # tags p\<rparr>)
           = matchingTags src p + (if u \<in> set (tags src) then 1 else 0)"
proof -
  have "r \<in> set (slice (sort_key (\<lambda>r. - score r)
                 (filter (\<lambda>r. 0 < score r) (candidates C i src))) 0 k)"
    using assms by (simp add: getRelatedPosts_Some)
  then have "r \<in> set (candidates C i src)"
    by (auto simp: slice_0 dest: in_set_takeD)
  then have a: "score r = int (length (filter (\<lambda>t. t \<in> set (tags src)) (tags r)))"
    by (auto simp: candidates_def withScore_simps matchingTags_def includes_arr_def)
  have b: "int (length (filter (\<lambda>t. t \<in> set (tags src)) (tags r)))
         = (\<Sum>t \<in> set (tags src). int (count_list (tags r) t))"
    by (rule length_filter_sum_count) simp
  have c: "matchingTags src (p\<lparr>tags := u # tags p\<rparr>)
           = matchingTags src p + (if u \<in> set (tags src) then 1 else 0)"
    by (simp add: matchingTags_def includes_arr_def)
  from a b c show ?thesis by simp
qed

theorem getRelatedPosts_score_exact_occurrences_witness:
  "getPostById catalogRelated ''s'' = Some (examplePost ''s'' ''2026-01-10'' [''x'', ''y''])
   \<and> withScore (examplePost ''c'' ''2026-01-04'' [''X'', ''y'', ''y'', ''x'']) 3
       \<in> set (getRelatedPosts catalogRelated ''s'' 3)
   \<and> (\<Sum>t \<in> set [''x'', ''y'']. int (count_list [''X'', ''y'', ''y'', ''x''] t)) = 3
   \<and> toLowerCase ''X'' = toLowerCase ''x''
   \<and> matchingTags (examplePost ''s'' ''2026-01-10'' [''x'', ''y''])
        (examplePost ''c'' ''2026-01-04'' [''y'', ''y'', ''x'']) = 3
   \<and> matchingTags (examplePost ''s'' ''2026-01-10'' [''x'', ''y''])
        (examplePost ''c'' ''2026-01-04'' [''X'', ''y'', ''y'', ''x'']) = 3"
proof -
  let ?s = "examplePost ''s'' ''2026-01-10'' [''x'', ''y'']"
  let ?c = "examplePost ''c'' ''2026-01-04'' [''X'', ''y'', ''y'', ''x'']"
  let ?c' = "examplePost ''c'' ''2026-01-04'' [''y'', ''y'', ''x'']"
  have g: "getPostById catalogRelated ''s'' = Some ?s"
    by code_simp
  have m: "withScore ?c 3 \<in> set (getRelatedPosts catalogRelated ''s'' 3)"
    by code_simp
  note T = getRelatedPosts_score_exact_occurrences[OF g m, where p = ?c' and u = "''X''"]
  have ts: "tags ?s = [''x'', ''y'']" "tags (withScore ?c 3) = [''X'', ''y'', ''y'', ''x'']"
    "score (withScore ?c 3) = 3"
    by (simp_all add: withScore_simps examplePost_def)
  have e: "score (withScore ?c 3)
         = (\<Sum>t \<in> set (tags ?s). int (count_list (tags (withScore ?c 3)) t))"
    using T by blast
  have sm: "(\<Sum>t \<in> set [''x'', ''y'']. int (count_list [''X'', ''y'', ''y'', ''x''] t)) = 3"
    using e[unfolded ts] by (rule sym)
  have lc: "toLowerCase ''X'' = toLowerCase ''x''"
    by code_simp
  have m0: "matchingTags ?s ?c' = 3"
    by code_simp
  have up: "?c'\<lparr>tags := ''X'' # tags ?c'\<rparr> = ?c"
    by (simp add: examplePost_def)
  have nx: "''X'' \<notin> set (tags ?s)"
    by (simp add: examplePost_def)
  have f: "matchingTags ?s (?c'\<lparr>tags := ''X'' # tags ?c'\<rparr>)
         = matchingTags ?s ?c' + (if ''X'' \<in> set (tags ?s) then 1 else 0)"
    using T by blast
  have m1: "matchingTags ?s ?c = 3"
    using f[unfolded up m0] nx by simp
  show ?thesis
    by (intro conjI) (rule g, rule m, rule sm, rule lc, rule m0, rule m1)
qed

text \<open>
  C1 as stated fails. In the catalog below the posts \<open>a\<close> (1 January) and \<open>b\<close> (2 January)
  both share one tag with \<open>s\<close>; \<open>a\<close> comes first in the catalog and first in the result,
  although \<open>b\<close> is the more recent. And with the limit \<open>-1\<close> the result has two entries,
  which is more than \<open>-1\<close>: \<open>slice(0, -1)\<close> drops the last element.
\<close>

theorem getRelatedPosts_tie_order_counterexample:
  "map (\<lambda>r. (post_id r, score r, date r)) (getRelatedPosts catalogRelated ''s'' 3)
     = [(''c'', 3, ''2026-01-04''), (''a'', 1, ''2026-01-01''), (''b'', 1, ''2026-01-02'')]
   \<and> \<not> sorted_wrt scoreThenDate (getRelatedPosts catalogRelated ''s'' 3)
   \<and> int (length (getRelatedPosts catalogRelated ''s'' (- 1))) = 2
   \<and> \<not> int (length (getRelatedPosts catalogRelated ''s'' (- 1))) \<le> - 1"
proof -
  have a: "map (\<lambda>r. (post_id r, score r, date r)) (getRelatedPosts catalogRelated ''s'' 3)
     = [(''c'', 3, ''2026-01-04''), (''a'', 1, ''2026-01-01''), (''b'', 1, ''2026-01-02'')]"
    by code_simp
  have b: "\<not> sorted_wrt scoreThenDate (getRelatedPosts catalogRelated ''s'' 3)"
    by code_simp
  have c: "int (length (getRelatedPosts catalogRelated ''s'' (- 1))) = 2"
    by code_simp
  from c have d: "\<not> int (length (getRelatedPosts catalogRelated ''s'' (- 1))) \<le> - 1"
    by simp
  show ?thesis
    by (intro conjI) (rule a, rule b, rule c, rule d)
qed

theorem getRelatedPosts_ranking_witness:
  "getPostById catalogRelated ''s'' = Some (examplePost ''s'' ''2026-01-10'' [''x'', ''y''])
   \<and> map (\<lambda>r. (post_id r, score r)) (getRelatedPosts catalogRelated ''s'' 2)
       = [(''c'', 3), (''a'', 1)]
   \<and> int (length (getRelatedPosts catalogRelated ''s'' 2)) \<le> 2
   \<and> sorted_wrt (\<lambda>a b. score b \<le> score a) (getRelatedPosts catalogRelated ''s'' 2)
   \<and> prefix (filter (\<lambda>r. score r = 1) (getRelatedPosts catalogRelated ''s'' 2))
        (filter (\<lambda>r. score r = 1)
           (candidates catalogRelated ''s'' (examplePost ''s'' ''2026-01-10'' [''x'', ''y''])))
   \<and> getPostById catalogRelated ''zz'' = None
   \<and> getRelatedPosts catalogRelated ''zz'' 2 = []
   \<and> sorted_wrt notOlder POSTS
   \<and> map post_id (getRelatedPosts POSTS ''understanding-move-semantics-cpp'' 3)
       = [''modern-cpp-best-practices'']
   \<and> sorted_wrt scoreThenDate (getRelatedPosts POSTS ''understanding-move-semantics-cpp'' 3)"
proof -
  let ?s = "examplePost ''s'' ''2026-01-10'' [''x'', ''y'']"
  have g: "getPostById catalogRelated ''s'' = Some ?s"
    by code_simp
  have v: "map (\<lambda>r. (post_id r, score r)) (getRelatedPosts catalogRelated ''s'' 2)
       = [(''c'', 3), (''a'', 1)]"
    by code_simp
  have z: "getPostById catalogRelated ''zz'' = None"
    by code_simp
  have n: "sorted_wrt notOlder POSTS"
    by code_simp
  have h: "getPostById POSTS ''understanding-move-semantics-cpp'' = Some (hd POSTS)"
    by code_simp
  have w: "map post_id (getRelatedPosts POSTS ''understanding-move-semantics-cpp'' 3)
       = [''modern-cpp-best-practices'']"
    by code_simp
  note T = getRelatedPosts_ranking[of catalogRelated "''s''" 2]
  note Z = getRelatedPosts_ranking[of catalogRelated "''zz''" 2]
  note P = getRelatedPosts_ranking[of POSTS "''understanding-move-semantics-cpp''" 3]
  have c3: "int (length (getRelatedPosts catalogRelated ''s'' 2)) \<le> 2"
    using T g by simp
  have c4: "sorted_wrt (\<lambda>a b. score b \<le> score a) (getRelatedPosts catalogRelated ''s'' 2)"
    using T g by blast
  have c5: "prefix (filter (\<lambda>r. score r = 1) (getRelatedPosts catalogRelated ''s'' 2))
        (filter (\<lambda>r. score r = 1) (candidates catalogRelated ''s'' ?s))"
    using T g by blast
  have "\<forall>p \<in> set catalogRelated. post_id p \<noteq> ''zz''"
    using z by (simp add: getPostById_def find_None_iff)
  then have c7: "getRelatedPosts catalogRelated ''zz'' 2 = []"
    using Z by blast
  have c10: "sorted_wrt scoreThenDate (getRelatedPosts POSTS ''understanding-move-semantics-cpp'' 3)"
    using P h n by blast
  show ?thesis
    by (intro conjI) (rule g, rule v, rule c3, rule c4, rule c5, rule z, rule c7, rule n, rule w,
        rule c10)
qed

section \<open>The queries do not write to the catalog\<close>

lemma postsAt_POSTS: "postsAt (PostArr C # rest) POSTS_addr = C"
  by (simp add: postsAt_def POSTS_addr_def)

lemma postsAt_new: "postsAt (s @ PostArr xs # ext) (length s) = xs"
  by (simp add: postsAt_def nth_append)

lemma scoredAt_new: "scoredAt (s @ ScoredArr xs # ext) (length s) = xs"
  by (simp add: scoredAt_def nth_append)

lemma stringsAt_new: "stringsAt (s @ StringArr xs # ext) (length s) = xs"
  by (simp add: stringsAt_def nth_append)

lemma update_new: "(s @ [a])[length s := b] = s @ [b]"
  by (simp add: list_update_append)

lemma getAllPosts_st_eq:
  "getAllPosts_st (PostArr C # rest)
   = (Suc (length rest), PostArr C # rest @ [PostArr (getAllPosts C)])"
  using postsAt_new[of "PostArr C # rest" C "[]"] update_new[of "PostArr C # rest"]
  by (simp add: getAllPosts_st_def alloc_def postsAt_POSTS getAllPosts_def)

lemma getPostById_st_eq:
  "getPostById_st i (PostArr C # rest) = (getPostById C i, PostArr C # rest)"
  by (simp add: getPostById_st_def postsAt_POSTS getPostById_def)

lemma getRecentPosts_st_eq:
  "getRecentPosts_st k (PostArr C # rest)
   = (Suc (Suc (length rest)),
      PostArr C # rest @ [PostArr (getAllPosts C), PostArr (getRecentPosts C k)])"
  using postsAt_new[of "PostArr C # rest" "getAllPosts C" "[]"]
  by (simp add: getRecentPosts_st_def getAllPosts_st_eq alloc_def getRecentPosts_def)

lemma getPostsByTag_st_eq:
  "getPostsByTag_st t (PostArr C # rest)
   = (if t = ''all''
      then (Suc (length rest), PostArr C # rest @ [PostArr (getAllPosts C)])
      else (Suc (Suc (length rest)),
            PostArr C # rest @ [PostArr (getAllPosts C), PostArr (getPostsByTag C t)]))"
  using postsAt_new[of "PostArr C # rest" "getAllPosts C" "[]"]
  by (simp add: getPostsByTag_st_def getAllPosts_st_eq alloc_def getPostsByTag_def)

lemma getAllTags_st_eq:
  "getAllTags_st (PostArr C # rest)
   = (Suc (length rest), PostArr C # rest @ [StringArr (getAllTags C)])"
  using stringsAt_new[of "PostArr C # rest" _ "[]"] update_new[of "PostArr C # rest"]
  by (simp add: getAllTags_st_def Let_def alloc_def postsAt_POSTS getAllTags_def)

lemma searchPosts_st_eq:
  "searchPosts_st q (PostArr C # rest)
   = (Suc (Suc (length rest)),
      PostArr C # rest @ [PostArr (getAllPosts C), PostArr (searchPosts C q)])"
  using postsAt_new[of "PostArr C # rest" "getAllPosts C" "[]"]
  by (simp add: searchPosts_st_def Let_def getAllPosts_st_eq alloc_def searchPosts_def)

lemma getRelatedPosts_st_eq:
  "\<exists>ext. getRelatedPosts_st i k (PostArr C # rest)
         = (length (PostArr C # rest @ ext),
            PostArr C # rest @ ext @ [ScoredArr (getRelatedPosts C i k)])"
proof (cases "getPostById C i")
  case None
  then have "getRelatedPosts_st i k (PostArr C # rest)
         = (length (PostArr C # rest @ []),
            PostArr C # rest @ [] @ [ScoredArr (getRelatedPosts C i k)])"
    by (simp add: getRelatedPosts_st_def getPostById_st_eq alloc_def getRelatedPosts_def)
  then show ?thesis by blast
next
  case (Some src)
  let ?s = "PostArr C # rest"
  let ?f = "filter (\<lambda>p. post_id p \<noteq> i) C"
  let ?m = "map (\<lambda>p. withScore p (matchingTags src p)) ?f"
  let ?g = "filter (\<lambda>p. score p > 0) ?m"
  let ?ext = "[PostArr ?f, ScoredArr ?m, ScoredArr (array_sort scoreCompare ?g)]"
  have 1: "postsAt (?s @ [PostArr ?f]) (length ?s) = ?f"
    by (rule postsAt_new)
  have 2: "scoredAt ((?s @ [PostArr ?f]) @ [ScoredArr ?m]) (length (?s @ [PostArr ?f])) = ?m"
    by (rule scoredAt_new)
  have 3: "scoredAt ((?s @ [PostArr ?f, ScoredArr ?m]) @ [ScoredArr ?g])
             (length (?s @ [PostArr ?f, ScoredArr ?m])) = ?g"
    by (rule scoredAt_new)
  have 4: "((?s @ [PostArr ?f, ScoredArr ?m]) @ [ScoredArr ?g])
             [length (?s @ [PostArr ?f, ScoredArr ?m]) := ScoredArr (array_sort scoreCompare ?g)]
           = (?s @ [PostArr ?f, ScoredArr ?m]) @ [ScoredArr (array_sort scoreCompare ?g)]"
    by (rule update_new)
  have 5: "scoredAt ((?s @ [PostArr ?f, ScoredArr ?m]) @ [ScoredArr (array_sort scoreCompare ?g)])
             (length (?s @ [PostArr ?f, ScoredArr ?m])) = array_sort scoreCompare ?g"
    by (rule scoredAt_new)
  have "getRelatedPosts_st i k ?s
      = (length (PostArr C # rest @ ?ext),
         PostArr C # rest @ ?ext @ [ScoredArr (getRelatedPosts C i k)])"
    using Some 1 2 3 4 5
    by (simp add: getRelatedPosts_st_def getPostById_st_eq alloc_def getRelatedPosts_def
          postsAt_POSTS)
  then show ?thesis by blast
qed

lemma framed_queryI:
  assumes "\<And>rest. \<exists>r ext. q (PostArr C # rest) = (r, PostArr C # rest @ ext)
                         \<and> rd (PostArr C # rest @ ext) r = v"
  shows "framed_query q rd v (PostArr C # rest)"
proof -
  obtain r1 e1 where 1: "q (PostArr C # rest) = (r1, PostArr C # rest @ e1)"
      "rd (PostArr C # rest @ e1) r1 = v"
    using assms[of rest] by blast
  obtain r2 e2 where 2: "q (PostArr C # rest @ e1) = (r2, PostArr C # (rest @ e1) @ e2)"
      "rd (PostArr C # (rest @ e1) @ e2) r2 = v"
    using assms[of "rest @ e1"] by blast
  show ?thesis
    using 1 2 by (simp add: framed_query_def postsAt_POSTS)
qed

text \<open>
  C8. Started in any store whose array \<open>POSTS\<close> holds the catalog \<open>C\<close>, each of the seven
  queries leaves every array of that store as it was, \<open>POSTS\<close> among them with the same
  records in the same order (what it sorts is an array it has just allocated); its
  result is the value of the corresponding function of \<open>C\<close> and its arguments alone; and
  called again with the same arguments, from the store the first call left, it again
  changes nothing and returns an equal result.
\<close>

theorem queries_leave_POSTS_unchanged:
  "framed_query getAllPosts_st postsAt (getAllPosts C) (PostArr C # rest)
   \<and> framed_query (getPostById_st i) (\<lambda>s r. r) (getPostById C i) (PostArr C # rest)
   \<and> framed_query (getRecentPosts_st k) postsAt (getRecentPosts C k) (PostArr C # rest)
   \<and> framed_query (getPostsByTag_st t) postsAt (getPostsByTag C t) (PostArr C # rest)
   \<and> framed_query getAllTags_st stringsAt (getAllTags C) (PostArr C # rest)
   \<and> framed_query (searchPosts_st q) postsAt (searchPosts C q) (PostArr C # rest)
   \<and> framed_query (getRelatedPosts_st i k) scoredAt (getRelatedPosts C i k) (PostArr C # rest)"
proof (intro conjI)
  show "framed_query getAllPosts_st postsAt (getAllPosts C) (PostArr C # rest)"
  proof (rule framed_queryI)
    fix rest
    have "postsAt ((PostArr C # rest) @ [PostArr (getAllPosts C)]) (length (PostArr C # rest)) = getAllPosts C"
      by (rule postsAt_new)
    then show "\<exists>r ext. getAllPosts_st (PostArr C # rest) = (r, PostArr C # rest @ ext)
                    \<and> postsAt (PostArr C # rest @ ext) r = getAllPosts C"
      by (simp add: getAllPosts_st_eq)
  qed
  show "framed_query (getPostById_st i) (\<lambda>s r. r) (getPostById C i) (PostArr C # rest)"
  proof (rule framed_queryI)
    fix rest
    have "getPostById_st i (PostArr C # rest) = (getPostById C i, PostArr C # rest @ [])"
      by (simp add: getPostById_st_eq)
    then show "\<exists>r ext. getPostById_st i (PostArr C # rest) = (r, PostArr C # rest @ ext)
                    \<and> r = getPostById C i"
      by blast
  qed
  show "framed_query (getRecentPosts_st k) postsAt (getRecentPosts C k) (PostArr C # rest)"
  proof (rule framed_queryI)
    fix rest
    have "postsAt ((PostArr C # rest @ [PostArr (getAllPosts C)]) @ [PostArr (getRecentPosts C k)])
            (length (PostArr C # rest @ [PostArr (getAllPosts C)])) = getRecentPosts C k"
      by (rule postsAt_new)
    then show "\<exists>r ext. getRecentPosts_st k (PostArr C # rest) = (r, PostArr C # rest @ ext)
                    \<and> postsAt (PostArr C # rest @ ext) r = getRecentPosts C k"
      by (simp add: getRecentPosts_st_eq)
  qed
  show "framed_query (getPostsByTag_st t) postsAt (getPostsByTag C t) (PostArr C # rest)"
  proof (rule framed_queryI)
    fix rest
    have a: "postsAt ((PostArr C # rest @ [PostArr (getAllPosts C)]) @ [PostArr (getPostsByTag C t)])
            (length (PostArr C # rest @ [PostArr (getAllPosts C)])) = getPostsByTag C t"
      by (rule postsAt_new)
    have b: "postsAt ((PostArr C # rest) @ [PostArr (getAllPosts C)]) (length (PostArr C # rest))
           = getAllPosts C"
      by (rule postsAt_new)
    show "\<exists>r ext. getPostsByTag_st t (PostArr C # rest) = (r, PostArr C # rest @ ext)
                    \<and> postsAt (PostArr C # rest @ ext) r = getPostsByTag C t"
    proof (cases "t = ''all''")
      case True
      with b show ?thesis
        by (simp add: getPostsByTag_st_eq getPostsByTag_def)
    next
      case False
      with a show ?thesis
        by (simp add: getPostsByTag_st_eq)
    qed
  qed
  show "framed_query getAllTags_st stringsAt (getAllTags C) (PostArr C # rest)"
  proof (rule framed_queryI)
    fix rest
    have "stringsAt ((PostArr C # rest) @ [StringArr (getAllTags C)]) (length (PostArr C # rest))
        = getAllTags C"
      by (rule stringsAt_new)
    then show "\<exists>r ext. getAllTags_st (PostArr C # rest) = (r, PostArr C # rest @ ext)
                    \<and> stringsAt (PostArr C # rest @ ext) r = getAllTags C"
      by (simp add: getAllTags_st_eq)
  qed
  show "framed_query (searchPosts_st q) postsAt (searchPosts C q) (PostArr C # rest)"
  proof (rule framed_queryI)
    fix rest
    have "postsAt ((PostArr C # rest @ [PostArr (getAllPosts C)]) @ [PostArr (searchPosts C q)])
            (length (PostArr C # rest @ [PostArr (getAllPosts C)])) = searchPosts C q"
      by (rule postsAt_new)
    then show "\<exists>r ext. searchPosts_st q (PostArr C # rest) = (r, PostArr C # rest @ ext)
                    \<and> postsAt (PostArr C # rest @ ext) r = searchPosts C q"
      by (simp add: searchPosts_st_eq)
  qed
  show "framed_query (getRelatedPosts_st i k) scoredAt (getRelatedPosts C i k) (PostArr C # rest)"
  proof (rule framed_queryI)
    fix rest
    obtain ext where e: "getRelatedPosts_st i k (PostArr C # rest)
         = (length (PostArr C # rest @ ext),
            PostArr C # rest @ ext @ [ScoredArr (getRelatedPosts C i k)])"
      using getRelatedPosts_st_eq by blast
    have "scoredAt ((PostArr C # rest @ ext) @ [ScoredArr (getRelatedPosts C i k)])
            (length (PostArr C # rest @ ext)) = getRelatedPosts C i k"
      by (rule scoredAt_new)
    with e show "\<exists>r ext. getRelatedPosts_st i k (PostArr C # rest) = (r, PostArr C # rest @ ext)
                    \<and> scoredAt (PostArr C # rest @ ext) r = getRelatedPosts C i k"
      by auto
  qed
qed


theorem queries_leave_POSTS_unchanged_witness:
  "framed_query getAllPosts_st postsAt (getAllPosts catalogTies)
     [PostArr catalogTies, StringArr [''other'']]
   \<and> map post_id
        (postsAt (snd (getAllPosts_st [PostArr catalogTies, StringArr [''other'']]))
           (fst (getAllPosts_st [PostArr catalogTies, StringArr [''other'']])))
       = [''b'', ''a'', ''c'']
   \<and> map post_id
        (postsAt (snd (getAllPosts_st [PostArr catalogTies, StringArr [''other'']])) POSTS_addr)
       = [''a'', ''b'', ''c'']
   \<and> fst (getAllPosts_st [PostArr catalogTies, StringArr [''other'']]) = 2"
proof -
  note T = queries_leave_POSTS_unchanged[of catalogTies "[StringArr [''other'']]"]
  have a: "framed_query getAllPosts_st postsAt (getAllPosts catalogTies)
     [PostArr catalogTies, StringArr [''other'']]"
    using T by blast
  have b: "map post_id
        (postsAt (snd (getAllPosts_st [PostArr catalogTies, StringArr [''other'']]))
           (fst (getAllPosts_st [PostArr catalogTies, StringArr [''other'']])))
       = [''b'', ''a'', ''c'']"
    by code_simp
  have c: "map post_id
        (postsAt (snd (getAllPosts_st [PostArr catalogTies, StringArr [''other'']])) POSTS_addr)
       = [''a'', ''b'', ''c'']"
    by code_simp
  have d: "fst (getAllPosts_st [PostArr catalogTies, StringArr [''other'']]) = 2"
    by code_simp
  show ?thesis
    by (intro conjI) (rule a, rule b, rule c, rule d)
qed

section \<open>The theme controller\<close>

lemma getTheme_nonempty: "getTheme st \<noteq> []"
  by (simp add: getTheme_def split: option.split)

lemma getTheme_stored: "truthy (storedTheme st) \<Longrightarrow> Some (getTheme st) = storedTheme st"
  by (auto simp: getTheme_def truthy_def split: option.splits)

lemma theme_loaded_persists:
  "truthy (storedTheme (theme_step st DOMContentLoaded))
   \<and> dataTheme (theme_step st DOMContentLoaded) = storedTheme (theme_step st DOMContentLoaded)"
  by (simp add: applyTheme_def truthy_def getTheme_nonempty)

lemma theme_step_keeps_persisted:
  assumes "truthy (storedTheme st)" and "dataTheme st = storedTheme st" and "ev \<noteq> ToggleClick"
  shows "truthy (storedTheme (theme_step st ev))
       \<and> dataTheme (theme_step st ev) = storedTheme (theme_step st ev)
       \<and> dataTheme (theme_step st ev) = dataTheme st"
proof (cases ev)
  case DOMContentLoaded
  with assms getTheme_stored[OF assms(1)] show ?thesis
    by (simp add: applyTheme_def)
next
  case ToggleClick
  with assms show ?thesis by simp
next
  case (ColorSchemeChange b)
  with assms show ?thesis
    by (simp add: Let_def split: option.split)
qed

lemma theme_run_keeps_persisted:
  assumes "truthy (storedTheme st)" and "dataTheme st = storedTheme st"
    and "\<forall>ev \<in> set evs. ev \<noteq> ToggleClick"
  shows "dataTheme (theme_run st evs) = dataTheme st"
  using assms
proof (induction evs arbitrary: st)
  case Nil
  show ?case by (simp add: theme_run_def)
next
  case (Cons ev evs)
  have ne: "ev \<noteq> ToggleClick"
    using Cons.prems(3) by simp
  note k = theme_step_keeps_persisted[OF Cons.prems(1) Cons.prems(2) ne]
  have "dataTheme (theme_run (theme_step st ev) evs) = dataTheme (theme_step st ev)"
    using k Cons.prems(3) by (intro Cons.IH) simp_all
  with k have "dataTheme (theme_run (theme_step st ev) evs) = dataTheme st"
    by metis
  then show ?case
    by (simp add: theme_run_def)
qed

text \<open>
  What the code does with operating-system changes: once the document has loaded, the
  theme applied at load has been written to local storage by \<open>applyTheme\<close>, so as long as
  the toggle is not pressed no later event changes the applied theme, whatever the
  operating system reports.
\<close>

lemma theme_after_load_ignores_os:
  assumes "\<forall>ev \<in> set evs. ev \<noteq> ToggleClick"
  shows "dataTheme (theme_run st (DOMContentLoaded # evs))
       = dataTheme (theme_run st [DOMContentLoaded])"
proof -
  have "dataTheme (theme_run (theme_step st DOMContentLoaded) evs)
      = dataTheme (theme_step st DOMContentLoaded)"
    using theme_loaded_persists[of st] assms by (intro theme_run_keeps_persisted) simp_all
  then show ?thesis
    by (simp add: theme_run_def)
qed

text \<open>
  C2 at the failing input: nothing is persisted, the operating system prefers light,
  the page loads, and the operating system then switches to dark with the toggle never
  pressed. The applied theme stays \<open>light\<close>: loading the page has already stored \<open>light\<close>,
  and the change listener only acts while nothing is stored.
\<close>

theorem theme_os_change_after_load_not_followed:
  "storedTheme (freshPage False) = None
   \<and> dataTheme (theme_run (freshPage False) [DOMContentLoaded]) = Some ''light''
   \<and> storedTheme (theme_run (freshPage False) [DOMContentLoaded]) = Some ''light''
   \<and> prefersDark (theme_run (freshPage False) [DOMContentLoaded, ColorSchemeChange True])
       = Some True
   \<and> dataTheme (theme_run (freshPage False) [DOMContentLoaded, ColorSchemeChange True])
       = Some ''light''
   \<and> dataTheme (theme_run (freshPage False) [DOMContentLoaded, ColorSchemeChange True])
       \<noteq> Some ''dark''"
  by (simp add: theme_run_def freshPage_def getTheme_def applyTheme_def truthy_def Let_def)

end
